theory Spec2Isabelle
  imports Main "HOL-Library.AList" "HOL-Library.Sublist"
begin

section \<open>Values shared by the client and the presentation layer\<close>

text \<open>
  The dashboard (\<^verbatim>\<open>app.py\<close>) is one HTTP client class and a Streamlit script. The
  values that flow through both are Python objects parsed from JSON. A JSON number with
  a fraction or an exponent (a Python float) is not represented; every other JSON value
  is. A Python \<^verbatim>\<open>dict\<close> is an association list in insertion order whose
  lookups take the first entry of a key. Text is a list of characters read as code
  points below 256.
\<close>

datatype json =
    JNull
  | JBool bool
  | JInt int
  | JStr string
  | JArr "json list"
  | JObj "(string \<times> json) list"

text \<open>The value of a query parameter: \<^verbatim>\<open>limit\<close> is an integer, the dates are text.\<close>

datatype param = PInt int | PStr string

text \<open>What \<^verbatim>\<open>requests.get\<close> is called with.\<close>

record request =
  req_url :: string
  req_headers :: "(string \<times> string) list"
  req_params :: "(string \<times> param) list"
  req_timeout :: nat

text \<open>
  What \<^verbatim>\<open>requests.get\<close> returns: the status code, the raw body
  (\<^verbatim>\<open>response.text\<close>) and the result of \<^verbatim>\<open>response.json()\<close>, which is
  \<open>None\<close> when the body does not decode.
\<close>

record response =
  status_code :: int
  body_text :: string
  body_json :: "json option"

text \<open>
  The network is a parameter of the model: for each request either a response, or a
  failure below HTTP (timeout, DNS, connection reset, an invalid header), which
  \<^verbatim>\<open>requests\<close> raises as a \<^verbatim>\<open>RequestException\<close> with a message.
\<close>

datatype net_result = Responded response | Refused string

text \<open>
  The exceptions of the program. \<^verbatim>\<open>HTTPError\<close> carries the response it was raised
  for, as \<^verbatim>\<open>e.response\<close> does. \<^verbatim>\<open>JSONDecodeError\<close> is the one of
  \<^verbatim>\<open>requests.exceptions\<close> (requests 2.27 and later), a subclass of
  \<^verbatim>\<open>RequestException\<close>. \<open>Unmodelled\<close> is not an exception of Python: it marks an
  input on which a library function is not modelled, so that nothing is stated there.
\<close>

datatype py_error =
    SyntaxError
  | HTTPError response
  | TransportError string
  | JSONDecodeError
  | AttributeError
  | TypeError
  | KeyError string
  | Unmodelled

fun isinstance_RequestException :: "py_error \<Rightarrow> bool" where
  "isinstance_RequestException (HTTPError r) = True"
| "isinstance_RequestException (TransportError m) = True"
| "isinstance_RequestException JSONDecodeError = True"
| "isinstance_RequestException e = False"

text \<open>
  What the script shows. Each \<^verbatim>\<open>st.error\<close>, \<^verbatim>\<open>st.info\<close>, ... call with a
  fixed text and one formatted argument is a constructor holding that argument.
\<close>

datatype message =
    Error_HTTP int               \<comment> \<open>\<^verbatim>\<open>st.error(f"HTTP Error: {e.response.status_code}")\<close>\<close>
  | Error_Response string        \<comment> \<open>\<^verbatim>\<open>st.error(f"Response: {e.response.text}")\<close>\<close>
  | Error_Request py_error       \<comment> \<open>\<^verbatim>\<open>st.error(f"Request Error: {str(e)}")\<close>\<close>
  | Error_Fetch py_error         \<comment> \<open>\<^verbatim>\<open>st.error(f"Gagal mengambil data: {str(e)}")\<close>\<close>
  | Info_enter_token             \<comment> \<open>\<^verbatim>\<open>st.info\<close> asking for the token\<close>
  | Warning_store_token          \<comment> \<open>\<^verbatim>\<open>st.warning\<close> on storing the token\<close>

section \<open>The API client\<close>

subsection \<open>The header literal of \<^verbatim>\<open>__init__\<close>, as the file has it\<close>

text \<open>
  Lines 10 to 15 of the source are a dict display of string literals. Python reads a
  dict display as key, colon, value groups separated by commas (one may trail), and
  joins string literals that stand next to each other into one literal. The tokens
  between the braces are kept here as they stand in the file.
\<close>

datatype token = STRING string | COLON | COMMA

fun join_adjacent :: "token list \<Rightarrow> token list" where
  "join_adjacent (STRING a # STRING b # ts) = join_adjacent (STRING (a @ b) # ts)"
| "join_adjacent (t # ts) = t # join_adjacent ts"
| "join_adjacent [] = []"

fun kvpairs :: "token list \<Rightarrow> py_error + (string \<times> string) list" where
  "kvpairs [] = Inr []"
| "kvpairs [STRING k, COLON, STRING v] = Inr [(k, v)]"
| "kvpairs (STRING k # COLON # STRING v # COMMA # ts) =
     (case kvpairs ts of Inl e \<Rightarrow> Inl e | Inr d \<Rightarrow> Inr ((k, v) # d))"
| "kvpairs ts = Inl SyntaxError"

text \<open>A later entry of a key replaces the value of the earlier one, in its place.\<close>

definition dict_display :: "token list \<Rightarrow> py_error + (string \<times> string) list" where
  "dict_display ts =
     (case kvpairs (join_adjacent ts) of
        Inl e \<Rightarrow> Inl e
      | Inr kvs \<Rightarrow> Inr (foldl (\<lambda>d (k, v). AList.update k v d) [] kvs))"

text \<open>
  The tokens of the literal, in source order. After the \<^verbatim>\<open>Content-Type\<close> entry the
  file has no comma: its value is followed directly by the literal
  \<^verbatim>\<open>"User-Agent"\<close>.
\<close>

definition headers_tokens :: "string \<Rightarrow> token list" where
  "headers_tokens jwt_token =
     [STRING ''Authorization'', COLON, STRING (''Bearer '' @ jwt_token), COMMA,
      STRING ''Accept'', COLON, STRING ''application/json'', COMMA,
      STRING ''Content-Type'', COLON, STRING ''application/json'',
      STRING ''User-Agent'', COLON, STRING ''curl/8.5.0'']"

subsection \<open>The client object and its fetch operation\<close>

record client =
  base_url :: string
  headers :: "(string \<times> string) list"

text \<open>
  \<^verbatim>\<open>__init__\<close> with the entries of the header literal separated: the four entries
  the literal spells out. Everything below the literal is modelled on this reading.
\<close>

definition InaprocAPIClient :: "string \<Rightarrow> client" where
  "InaprocAPIClient jwt_token =
     \<lparr>base_url = ''https://data.inaproc.id/api'',
      headers =
        [(''Authorization'', ''Bearer '' @ jwt_token),
         (''Accept'', ''application/json''),
         (''Content-Type'', ''application/json''),
         (''User-Agent'', ''curl/8.5.0'')]\<rparr>"

text \<open>Lines 37 to 40: the endpoint.\<close>

definition endpoint :: "client \<Rightarrow> bool \<Rightarrow> string" where
  "endpoint self use_archive =
     (if use_archive then base_url self @ ''/v1/ekatalog-archive/paket-e-purchasing''
      else base_url self @ ''/v1/ekatalog/paket-e-purchasing'')"

text \<open>
  Lines 42 to 46: the query parameters. \<^verbatim>\<open>if start_date:\<close> is false for
  \<^verbatim>\<open>None\<close> and for the empty string.
\<close>

definition query_params :: "int \<Rightarrow> string option \<Rightarrow> string option \<Rightarrow> (string \<times> param) list" where
  "query_params limit start_date end_date =
     (let params = [(''limit'', PInt limit)];
          params = (case start_date of
                      None \<Rightarrow> params
                    | Some s \<Rightarrow> if s \<noteq> [] then AList.update ''start_date'' (PStr s) params else params);
          params = (case end_date of
                      None \<Rightarrow> params
                    | Some s \<Rightarrow> if s \<noteq> [] then AList.update ''end_date'' (PStr s) params else params)
      in params)"

definition get_request :: "client \<Rightarrow> bool \<Rightarrow> int \<Rightarrow> string option \<Rightarrow> string option \<Rightarrow> request" where
  "get_request self use_archive limit start_date end_date =
     \<lparr>req_url = endpoint self use_archive,
      req_headers = headers self,
      req_params = query_params limit start_date end_date,
      req_timeout = 30\<rparr>"

text \<open>
  \<^verbatim>\<open>Response.raise_for_status\<close> of \<^verbatim>\<open>requests\<close>: it raises for a status from 400
  to 599 and for no other.
\<close>

definition raise_for_status :: "response \<Rightarrow> py_error + unit" where
  "raise_for_status r =
     (if 400 \<le> status_code r \<and> status_code r < 600 then Inl (HTTPError r) else Inr ())"

text \<open>Lines 49 to 58: the body of the \<^verbatim>\<open>try\<close>.\<close>

definition try_get :: "(request \<Rightarrow> net_result) \<Rightarrow> request \<Rightarrow> py_error + json" where
  "try_get net rq =
     (case net rq of
        Refused msg \<Rightarrow> Inl (TransportError msg)
      | Responded r \<Rightarrow>
          (case raise_for_status r of
             Inl e \<Rightarrow> Inl e
           | Inr u \<Rightarrow> (case body_json r of None \<Rightarrow> Inl JSONDecodeError | Some data \<Rightarrow> Inr data)))"

text \<open>
  The result of one call of \<^verbatim>\<open>get_ekatalog_data\<close>: what it returns or raises, what
  it showed with \<^verbatim>\<open>st.error\<close>, and the requests it passed to \<^verbatim>\<open>requests.get\<close>.
\<close>

record fetch_result =
  outcome :: "py_error + json"
  shown :: "message list"
  sent :: "request list"

text \<open>Lines 60 to 66: the two \<^verbatim>\<open>except\<close> clauses, in their order; each re-raises.\<close>

definition except_clauses :: "py_error \<Rightarrow> message list" where
  "except_clauses e =
     (case e of
        HTTPError r \<Rightarrow> [Error_HTTP (status_code r), Error_Response (body_text r)]
      | _ \<Rightarrow> if isinstance_RequestException e then [Error_Request e] else [])"

definition get_ekatalog_data ::
  "(request \<Rightarrow> net_result) \<Rightarrow> client \<Rightarrow> bool \<Rightarrow> int \<Rightarrow> string option \<Rightarrow> string option \<Rightarrow> fetch_result" where
  "get_ekatalog_data net self use_archive limit start_date end_date =
     (let rq = get_request self use_archive limit start_date end_date
      in case try_get net rq of
           Inr data \<Rightarrow> \<lparr>outcome = Inr data, shown = [], sent = [rq]\<rparr>
         | Inl e \<Rightarrow> \<lparr>outcome = Inl e, shown = except_clauses e, sent = [rq]\<rparr>)"

text \<open>The segments of a URL between its slashes.\<close>

fun split_on :: "char \<Rightarrow> string \<Rightarrow> string list" where
  "split_on d [] = [[]]"
| "split_on d (c # cs) =
     (if c = d then [] # split_on d cs
      else (case split_on d cs of seg # segs \<Rightarrow> (c # seg) # segs | [] \<Rightarrow> [[c]]))"


section \<open>Python values in the script\<close>

text \<open>Truth of a value in \<^verbatim>\<open>if x:\<close>.\<close>

fun truthy :: "json \<Rightarrow> bool" where
  "truthy JNull = False"
| "truthy (JBool b) = b"
| "truthy (JInt n) = (n \<noteq> 0)"
| "truthy (JStr s) = (s \<noteq> [])"
| "truthy (JArr xs) = (xs \<noteq> [])"
| "truthy (JObj kvs) = (kvs \<noteq> [])"

text \<open>\<^verbatim>\<open>len(x)\<close>: defined on text, lists and dicts, a \<^verbatim>\<open>TypeError\<close> on the rest.\<close>

fun py_len :: "json \<Rightarrow> py_error + nat" where
  "py_len (JStr s) = Inr (length s)"
| "py_len (JArr xs) = Inr (length xs)"
| "py_len (JObj kvs) = Inr (length kvs)"
| "py_len v = Inl TypeError"

text \<open>\<^verbatim>\<open>x.get(key, default)\<close>: only a dict has the method.\<close>

fun py_get :: "json \<Rightarrow> string \<Rightarrow> json \<Rightarrow> py_error + json" where
  "py_get (JObj kvs) key dflt = Inr (case map_of kvs key of None \<Rightarrow> dflt | Some v \<Rightarrow> v)"
| "py_get v key dflt = Inl AttributeError"

section \<open>The libraries the script calls\<close>

subsection \<open>Frames\<close>

text \<open>
  A \<^verbatim>\<open>pandas.DataFrame\<close>: the column names and the rows, each row with its index
  label and one cell per column. The type of a cell is what pandas stores.
\<close>

record 'c frame =
  columns :: "string list"
  rows :: "(nat \<times> 'c list) list"

type_synonym datetime = int
type_synonym date = "nat \<times> nat \<times> nat"

text \<open>
  Everything outside the file that a run of the script depends on: the network, the
  clock and its formatting, and the functions of pandas and \<^verbatim>\<open>re\<close> that the script
  calls. \<open>DataFrame\<close> is the constructor \<^verbatim>\<open>pd.DataFrame(data)\<close>; \<open>astype_str\<close> is the
  text of a stored cell after \<^verbatim>\<open>df.astype(str)\<close>; \<open>csv_cell\<close> is the text of a stored
  cell as \<^verbatim>\<open>to_csv\<close> hands it to the CSV writer; \<open>re_compile\<close> and \<open>re_search\<close> are
  \<^verbatim>\<open>re.compile(pat, re.IGNORECASE)\<close> and \<^verbatim>\<open>regex.search(x) is not None\<close>, which is
  how \<^verbatim>\<open>Series.str.contains(pat, case=False)\<close> decides a cell (its \<^verbatim>\<open>regex\<close> argument
  defaults to true); \<open>linesep\<close> is \<^verbatim>\<open>os.linesep\<close>, the line terminator \<^verbatim>\<open>to_csv\<close>
  passes to the CSV writer; \<open>quoted_breaks\<close> are the line-break characters that the
  CSV writer of the running Python quotes whatever the line terminator is: none in the
  older versions (3.11.2 is one), carriage return and line feed in the later ones.
\<close>

record ('c, 'p) library =
  net :: "request \<Rightarrow> net_result"
  now :: datetime
  strftime_ymd :: "date \<Rightarrow> string"
  stamp_csv :: string
  stamp_json :: string
  DataFrame :: "json \<Rightarrow> py_error + 'c frame"
  astype_str :: "'c \<Rightarrow> string"
  csv_cell :: "'c \<Rightarrow> string"
  re_compile :: "string \<Rightarrow> py_error + 'p"
  re_search :: "'p \<Rightarrow> string \<Rightarrow> bool"
  linesep :: string
  quoted_breaks :: string

subsection \<open>The CSV writer behind \<^verbatim>\<open>to_csv(index=False)\<close>\<close>

text \<open>
  \<^verbatim>\<open>to_csv\<close> writes the column names and then each row through Python's
  \<^verbatim>\<open>csv.writer\<close> with minimal quoting: a field is quoted when it holds the
  delimiter, the quote character, a character of the line terminator or one of the
  line-break characters \<open>q\<close> that the version always quotes, and when it is the empty
  only field of its row; a quote character inside is doubled. With
  \<^verbatim>\<open>index=False\<close> the index labels are not written.
\<close>

definition needs_quotes :: "string \<Rightarrow> string \<Rightarrow> string \<Rightarrow> bool" where
  "needs_quotes lt q f =
     list_ex (\<lambda>c. c = CHR '','' \<or> c = CHR 0x22 \<or> c \<in> set lt \<or> c \<in> set q) f"

definition csv_field :: "string \<Rightarrow> string \<Rightarrow> bool \<Rightarrow> string \<Rightarrow> string" where
  "csv_field lt q only f =
     (if needs_quotes lt q f \<or> (only \<and> f = [])
      then [CHR 0x22] @ concat (map (\<lambda>c. if c = CHR 0x22 then [c, c] else [c]) f) @ [CHR 0x22]
      else f)"

fun join_with :: "'a list \<Rightarrow> 'a list list \<Rightarrow> 'a list" where
  "join_with sep [] = []"
| "join_with sep [x] = x"
| "join_with sep (x # y # ys) = x @ sep @ join_with sep (y # ys)"

text \<open>A record as the writer puts it out: the fields between commas, before the line terminator.\<close>

definition csv_line :: "string \<Rightarrow> string \<Rightarrow> string list \<Rightarrow> string" where
  "csv_line lt q fs = join_with '','' (map (csv_field lt q (length fs = 1)) fs)"

definition writerow :: "string \<Rightarrow> string \<Rightarrow> string list \<Rightarrow> string" where
  "writerow lt q fs = csv_line lt q fs @ lt"

definition to_csv :: "('c, 'p) library \<Rightarrow> 'c frame \<Rightarrow> string" where
  "to_csv L df =
     writerow (linesep L) (quoted_breaks L) (columns df)
     @ concat (map (\<lambda>(i, cells). writerow (linesep L) (quoted_breaks L) (map (csv_cell L) cells))
         (rows df))"

text \<open>\<^verbatim>\<open>.encode('utf-8')\<close> on code points below 256.\<close>

definition utf8_char :: "char \<Rightarrow> string" where
  "utf8_char c =
     (let n = (of_char c :: nat)
      in if n < 128 then [c] else [char_of (192 + n div 64), char_of (128 + n mod 64)])"

definition encode_utf8 :: "string \<Rightarrow> string" where
  "encode_utf8 s = concat (map utf8_char s)"

subsection \<open>\<^verbatim>\<open>json.dumps(obj, indent=2, ensure_ascii=False)\<close>\<close>

definition digit_char :: "nat \<Rightarrow> char" where
  "digit_char n = char_of (48 + n)"

fun nat_repr :: "nat \<Rightarrow> string" where
  "nat_repr n = (if n < 10 then [digit_char n] else nat_repr (n div 10) @ [digit_char (n mod 10)])"

declare nat_repr.simps [simp del]

definition int_repr :: "int \<Rightarrow> string" where
  "int_repr i = (if i < 0 then CHR ''-'' # nat_repr (nat (- i)) else nat_repr (nat i))"

definition hex_char :: "nat \<Rightarrow> char" where
  "hex_char n = (if n < 10 then char_of (48 + n) else char_of (87 + n))"

text \<open>
  The escapes of \<^verbatim>\<open>json.encoder.py_encode_basestring\<close>: the backslash, the quote
  and the control characters below 32; every other character stands for itself.
\<close>

definition escape_char :: "char \<Rightarrow> string" where
  "escape_char c =
     (let n = (of_char c :: nat)
      in if c = CHR 0x5C then [CHR 0x5C, CHR 0x5C]
         else if c = CHR 0x22 then [CHR 0x5C, CHR 0x22]
         else if c = CHR 0x08 then [CHR 0x5C, CHR ''b'']
         else if c = CHR 0x0C then [CHR 0x5C, CHR ''f'']
         else if c = CHR 0x0A then [CHR 0x5C, CHR ''n'']
         else if c = CHR 0x0D then [CHR 0x5C, CHR ''r'']
         else if c = CHR 0x09 then [CHR 0x5C, CHR ''t'']
         else if n < 32 then [CHR 0x5C, CHR ''u'', CHR ''0'', CHR ''0'', hex_char (n div 16), hex_char (n mod 16)]
         else [c])"

definition encode_basestring :: "string \<Rightarrow> string" where
  "encode_basestring s = [CHR 0x22] @ concat (map escape_char s) @ [CHR 0x22]"

definition newline_indent :: "nat \<Rightarrow> string" where
  "newline_indent level = CHR 0x0A # replicate (2 * level) CHR '' ''"

primrec iterencode :: "json \<Rightarrow> nat \<Rightarrow> string" where
  "iterencode JNull = (\<lambda>level. ''null'')"
| "iterencode (JBool b) = (\<lambda>level. if b then ''true'' else ''false'')"
| "iterencode (JInt n) = (\<lambda>level. int_repr n)"
| "iterencode (JStr s) = (\<lambda>level. encode_basestring s)"
| "iterencode (JArr xs) =
     (\<lambda>level. if xs = [] then ''[]''
        else ''['' @ newline_indent (level + 1)
             @ join_with ('','' @ newline_indent (level + 1))
                 (map (\<lambda>f. f (level + 1)) (map iterencode xs))
             @ newline_indent level @ '']'')"
| "iterencode (JObj kvs) =
     (\<lambda>level. if kvs = [] then ''{}''
        else ''{'' @ newline_indent (level + 1)
             @ join_with ('','' @ newline_indent (level + 1))
                 (map (\<lambda>(k, f). encode_basestring k @ '': '' @ f (level + 1))
                    (map (map_prod id iterencode) kvs))
             @ newline_indent level @ ''}'')"

definition json_dumps :: "json \<Rightarrow> string" where
  "json_dumps obj = iterencode obj 0"


section \<open>The presentation layer\<close>

subsection \<open>Inputs and session state\<close>

text \<open>
  The script runs from top to bottom on every interaction. The page configuration, the
  title, the labels of the sidebar and its footer are fixed texts and are left out. The
  credential is the value of \<^verbatim>\<open>jwt_token\<close> after line 93, from the secrets or from
  the input field, empty when there is none.
\<close>

text \<open>The widgets of the sidebar and the search box, with their current values.\<close>

record inputs =
  jwt_token :: string
  use_archive :: bool
  limit :: int
  use_date_filter :: bool
  start_date_input :: date
  end_date_input :: date
  fetch_button :: bool
  search :: string

text \<open>\<^verbatim>\<open>st.session_state\<close>: each of its three keys is present or not.\<close>

record session_state =
  ekatalog_data :: "json option"
  last_fetch :: "datetime option"
  is_archive :: "bool option"

text \<open>What a run of the script puts on the page, in order.\<close>

datatype 'c element =
    Message message
  | Success string datetime      \<comment> \<open>the status line: source kind and fetch time\<close>
  | Subheader string
  | Metric string json           \<comment> \<open>\<^verbatim>\<open>st.metric(label, value)\<close>\<close>
  | Text_input string            \<comment> \<open>the search box and its text\<close>
  | Write_count nat nat          \<comment> \<open>\<^verbatim>\<open>st.write(f"Menampilkan {len(filtered_df)} dari {len(df)} data")\<close>\<close>
  | Dataframe "'c frame"
  | Download_CSV string string   \<comment> \<open>the bytes and the file name\<close>
  | Download_JSON string string
  | Expander_JSON json
  | Warning_no_data

text \<open>
  A run is a list of steps; the first step that raises ends it, and what was put on the
  page before stays there.
\<close>

fun run_steps :: "(py_error + 'c element) list \<Rightarrow> 'c element list \<times> py_error option" where
  "run_steps [] = ([], None)"
| "run_steps (Inl e # ss) = ([], Some e)"
| "run_steps (Inr x # ss) = (case run_steps ss of (xs, r) \<Rightarrow> (x # xs, r))"

subsection \<open>The date filter and the fetch button\<close>

text \<open>Lines 115 to 134: the dates are \<^verbatim>\<open>None\<close> unless the checkbox is ticked.\<close>

definition date_filter :: "('c, 'p) library \<Rightarrow> inputs \<Rightarrow> string option \<times> string option" where
  "date_filter L i =
     (if use_date_filter i
      then (Some (strftime_ymd L (start_date_input i)), Some (strftime_ymd L (end_date_input i)))
      else (None, None))"

text \<open>Lines 157 to 165: the client is made and called.\<close>

definition fetch_call :: "('c, 'p) library \<Rightarrow> inputs \<Rightarrow> fetch_result" where
  "fetch_call L i =
     get_ekatalog_data (net L) (InaprocAPIClient (jwt_token i)) (use_archive i) (limit i)
       (fst (date_filter L i)) (snd (date_filter L i))"

text \<open>
  Lines 140 to 173. The three writes to the session state follow the call inside the
  \<^verbatim>\<open>try\<close>; \<^verbatim>\<open>except Exception\<close> shows the error.
\<close>

definition fetch_section ::
  "('c, 'p) library \<Rightarrow> inputs \<Rightarrow> session_state \<Rightarrow> session_state \<times> message list" where
  "fetch_section L i st =
     (if jwt_token i = [] then (st, [Info_enter_token, Warning_store_token])
      else if fetch_button i then
        (let r = fetch_call L i
         in case outcome r of
              Inr data \<Rightarrow>
                (st\<lparr>ekatalog_data := Some data,
                    last_fetch := Some (now L),
                    is_archive := Some (use_archive i)\<rparr>,
                 shown r)
            | Inl e \<Rightarrow> (st, shown r @ [Error_Fetch e]))
      else (st, []))"

subsection \<open>The display of the stored response\<close>

text \<open>Lines 180 and 181.\<close>

definition success_step :: "session_state \<Rightarrow> py_error + 'c element" where
  "success_step st =
     (case last_fetch st of
        None \<Rightarrow> Inl (KeyError ''last_fetch'')
      | Some t \<Rightarrow>
          Inr (Success (if (case is_archive st of None \<Rightarrow> False | Some b \<Rightarrow> b)
                        then ''Archive'' else ''Aktif'') t))"

text \<open>
  \<^verbatim>\<open>st.metric\<close> takes a number, text or \<^verbatim>\<open>None\<close> as its value and raises a
  \<^verbatim>\<open>TypeError\<close> on a list or a dict.
\<close>

definition st_metric :: "string \<Rightarrow> json \<Rightarrow> py_error + 'c element" where
  "st_metric label v =
     (case v of JArr xs \<Rightarrow> Inl TypeError | JObj kvs \<Rightarrow> Inl TypeError | _ \<Rightarrow> Inr (Metric label v))"

text \<open>Lines 184 to 196: the metrics, inside \<^verbatim>\<open>if meta:\<close>.\<close>

definition metrics_steps :: "json \<Rightarrow> (py_error + 'c element) list" where
  "metrics_steps d =
     (case py_get d ''meta'' (JObj []) of
        Inl e \<Rightarrow> [Inl e]
      | Inr meta \<Rightarrow>
          if truthy meta then
            [Inr (Subheader ''Informasi Data''),
             (case py_get d ''data'' (JArr []) of
                Inl e \<Rightarrow> Inl e
              | Inr v \<Rightarrow> (case py_len v of Inl e \<Rightarrow> Inl e | Inr n \<Rightarrow> st_metric ''Total Data'' (JInt (int n)))),
             (case py_get meta ''page'' (JStr ''N/A'') of Inl e \<Rightarrow> Inl e | Inr v \<Rightarrow> st_metric ''Page'' v),
             (case py_get meta ''per_page'' (JStr ''N/A'') of Inl e \<Rightarrow> Inl e | Inr v \<Rightarrow> st_metric ''Per Page'' v),
             (case py_get meta ''total'' (JStr ''N/A'') of Inl e \<Rightarrow> Inl e | Inr v \<Rightarrow> st_metric ''Total Records'' v)]
          else [])"

text \<open>The first error of a list of results, or all the values.\<close>

fun collect :: "('e + 'a) list \<Rightarrow> 'e + 'a list" where
  "collect [] = Inr []"
| "collect (Inl e # rs) = Inl e"
| "collect (Inr x # rs) = (case collect rs of Inl e \<Rightarrow> Inl e | Inr xs \<Rightarrow> Inr (x # xs))"

text \<open>
  Line 209: \<^verbatim>\<open>df.astype(str).apply(lambda row: row.str.contains(search, case=False).any(), axis=1)\<close>.
  For each row the pattern is compiled and searched in the text of each cell; the row's
  entry of the mask is whether any cell matched. A frame without columns takes another
  path through \<^verbatim>\<open>apply\<close> and is not modelled.
\<close>

definition search_mask :: "('c, 'p) library \<Rightarrow> 'c frame \<Rightarrow> string \<Rightarrow> py_error + bool list" where
  "search_mask L df pat =
     (if columns df = [] then Inl Unmodelled
      else collect (map (\<lambda>(i, cells).
             case re_compile L pat of
               Inl e \<Rightarrow> Inl e
             | Inr rx \<Rightarrow> Inr (list_ex (\<lambda>c. re_search L rx (astype_str L c)) cells))
           (rows df)))"

text \<open>Line 210: \<^verbatim>\<open>df[mask]\<close> keeps the rows whose entry is true, labels and order included.\<close>

definition select_rows :: "'c frame \<Rightarrow> bool list \<Rightarrow> 'c frame" where
  "select_rows df keep = df\<lparr>rows := map fst (filter snd (zip (rows df) keep))\<rparr>"

text \<open>Lines 207 to 213: the filtered frame, and the count line shown with it.\<close>

definition filter_block ::
  "('c, 'p) library \<Rightarrow> 'c frame \<Rightarrow> string \<Rightarrow> py_error + ('c frame \<times> 'c element list)" where
  "filter_block L df pat =
     (if pat \<noteq> [] then
        (case search_mask L df pat of
           Inl e \<Rightarrow> Inl e
         | Inr keep \<Rightarrow>
             (let filtered_df = select_rows df keep
              in Inr (filtered_df, [Write_count (length (rows filtered_df)) (length (rows df))])))
      else Inr (df, []))"

text \<open>
  Lines 199 to 252. The branch for a value that is not a dict is never reached: such a
  value has raised in the metrics above.
\<close>

definition table_steps :: "('c, 'p) library \<Rightarrow> json \<Rightarrow> string \<Rightarrow> (py_error + 'c element) list" where
  "table_steps L d pat =
     (case d of
        JObj kvs \<Rightarrow>
          (case map_of kvs ''data'' of
             None \<Rightarrow> [Inr Warning_no_data]
           | Some data \<Rightarrow>
               if truthy data then
                 (case DataFrame L data of
                    Inl e \<Rightarrow> [Inl e]
                  | Inr df \<Rightarrow>
                      [Inr (Subheader ''Data Paket E-Purchasing''), Inr (Text_input pat)]
                      @ (case filter_block L df pat of
                           Inl e \<Rightarrow> [Inl e]
                         | Inr (filtered_df, note) \<Rightarrow>
                             map Inr note
                             @ [Inr (Dataframe filtered_df),
                                Inr (Subheader ''Unduh Data''),
                                Inr (Download_CSV (encode_utf8 (to_csv L filtered_df))
                                       (''inaproc_ekatalog_'' @ stamp_csv L @ ''.csv'')),
                                Inr (Download_JSON (json_dumps d)
                                       (''inaproc_ekatalog_'' @ stamp_json L @ ''.json'')),
                                Inr (Expander_JSON d)]))
               else [Inr Warning_no_data])
      | _ \<Rightarrow> [])"

text \<open>Lines 176 to 252.\<close>

definition display ::
  "('c, 'p) library \<Rightarrow> session_state \<Rightarrow> string \<Rightarrow> 'c element list \<times> py_error option" where
  "display L st pat =
     (case ekatalog_data st of
        None \<Rightarrow> ([], None)
      | Some d \<Rightarrow> run_steps (success_step st # metrics_steps d @ table_steps L d pat))"

text \<open>One run of the script: the new session state, the page, and the error that ended it.\<close>

definition script_run ::
  "('c, 'p) library \<Rightarrow> inputs \<Rightarrow> session_state
     \<Rightarrow> session_state \<times> 'c element list \<times> py_error option" where
  "script_run L i st =
     (case fetch_section L i st of
        (st', msgs) \<Rightarrow>
          (case display L st' (search i) of (els, err) \<Rightarrow> (st', map Message msgs @ els, err)))"

text \<open>Parts of a page that the properties below read off.\<close>

fun metrics_of :: "'c element list \<Rightarrow> (string \<times> json) list" where
  "metrics_of [] = []"
| "metrics_of (Metric label v # es) = (label, v) # metrics_of es"
| "metrics_of (e # es) = metrics_of es"

fun frames_of :: "'c element list \<Rightarrow> 'c frame list" where
  "frames_of [] = []"
| "frames_of (Dataframe df # es) = df # frames_of es"
| "frames_of (e # es) = frames_of es"

fun csv_of :: "'c element list \<Rightarrow> string list" where
  "csv_of [] = []"
| "csv_of (Download_CSV b n # es) = b # csv_of es"
| "csv_of (e # es) = csv_of es"

fun json_of :: "'c element list \<Rightarrow> string list" where
  "json_of [] = []"
| "json_of (Download_JSON b n # es) = b # json_of es"
| "json_of (e # es) = json_of es"

section \<open>An instance of the libraries\<close>

text \<open>
  A part of each library small enough to be written down in full, used to run the
  script on examples.
\<close>

subsection \<open>Patterns of ordinary characters and dots\<close>

text \<open>
  In a pattern of \<^verbatim>\<open>re\<close>, a character other than \<^verbatim>\<open>. ^ $ * + ? { } [ ] \ | ( )\<close>
  stands for itself and a dot for any character but the newline. A pattern with one of
  the other special characters is not modelled. Under \<^verbatim>\<open>re.IGNORECASE\<close> a literal
  matches a character with the same lower case; below 256 the letters with another
  case are A to Z and the letters from 192 to 222 other than 215.
\<close>

definition re_ordinary :: "char \<Rightarrow> bool" where
  "re_ordinary c = (c \<notin> set (''.^$*+?{}[]|()'' @ [CHR 0x5C]))"

definition lower_char :: "char \<Rightarrow> char" where
  "lower_char c =
     (let n = (of_char c :: nat)
      in if (65 \<le> n \<and> n \<le> 90) \<or> (192 \<le> n \<and> n \<le> 222 \<and> n \<noteq> 215) then char_of (n + 32) else c)"

datatype atom = Lit char | Dot

definition compile_ignorecase :: "string \<Rightarrow> py_error + atom list" where
  "compile_ignorecase pat =
     (if list_all (\<lambda>c. re_ordinary c \<or> c = CHR ''.'') pat
      then Inr (map (\<lambda>c. if c = CHR ''.'' then Dot else Lit (lower_char c)) pat)
      else Inl Unmodelled)"

fun atom_matches :: "atom \<Rightarrow> char \<Rightarrow> bool" where
  "atom_matches (Lit l) c = (lower_char c = l)"
| "atom_matches Dot c = (c \<noteq> CHR 0x0A)"

fun match_here :: "atom list \<Rightarrow> string \<Rightarrow> bool" where
  "match_here [] s = True"
| "match_here (a # as) [] = False"
| "match_here (a # as) (c # cs) = (atom_matches a c \<and> match_here as cs)"

fun search_atoms :: "atom list \<Rightarrow> string \<Rightarrow> bool" where
  "search_atoms rx [] = match_here rx []"
| "search_atoms rx (c # cs) = (match_here rx (c # cs) \<or> search_atoms rx cs)"

subsection \<open>Frames of records with text in every field\<close>

text \<open>
  \<^verbatim>\<open>pd.DataFrame\<close> on a list of records that all have the same keys in the same
  order and text in every field: one column per key, one row per record, labelled
  from 0, each cell the text itself; \<^verbatim>\<open>astype(str)\<close> and \<^verbatim>\<open>to_csv\<close> leave such
  a cell as it is. Other data is not modelled.
\<close>

fun text_field :: "string \<times> json \<Rightarrow> (string \<times> string) option" where
  "text_field (k, JStr s) = Some (k, s)"
| "text_field (k, v) = None"

fun text_record :: "json \<Rightarrow> (string \<times> string) list option" where
  "text_record (JObj kvs) = those (map text_field kvs)"
| "text_record v = None"

definition text_frame :: "json \<Rightarrow> py_error + string frame" where
  "text_frame data =
     (case data of
        JArr recs \<Rightarrow>
          (case those (map text_record recs) of
             None \<Rightarrow> Inl Unmodelled
           | Some [] \<Rightarrow> Inl Unmodelled
           | Some (r # rs) \<Rightarrow>
               if distinct (map fst r) \<and> list_all (\<lambda>r'. map fst r' = map fst r) rs
               then Inr \<lparr>columns = map fst r,
                         rows = zip [0 ..< Suc (length rs)] (map (map snd) (r # rs))\<rparr>
               else Inl Unmodelled)
      | _ \<Rightarrow> Inl Unmodelled)"

definition two_digits :: "nat \<Rightarrow> string" where
  "two_digits n = (if n < 10 then CHR ''0'' # nat_repr n else nat_repr n)"

definition iso_date :: "date \<Rightarrow> string" where
  "iso_date d = (case d of (y, m, dd) \<Rightarrow> nat_repr y @ ''-'' @ two_digits m @ ''-'' @ two_digits dd)"

definition text_library :: "(request \<Rightarrow> net_result) \<Rightarrow> (string, atom list) library" where
  "text_library network =
     \<lparr>net = network, now = 1700000000, strftime_ymd = iso_date,
      stamp_csv = ''20240101_120000'', stamp_json = ''20240101_120000'',
      DataFrame = text_frame, astype_str = (\<lambda>s. s), csv_cell = (\<lambda>s. s),
      re_compile = compile_ignorecase, re_search = search_atoms, linesep = [CHR 0x0A],
      quoted_breaks = []\<rparr>"

section \<open>Notions of the specification\<close>

text \<open>
  The specification's case-insensitive substring: the lower-cased search text is a
  contiguous part of the lower-cased cell text.
\<close>

definition contains_ci :: "string \<Rightarrow> string \<Rightarrow> bool" where
  "contains_ci needle hay = sublist (map lower_char needle) (map lower_char hay)"

text \<open>The lines of a text: the number of line feeds in it.\<close>

definition line_count :: "string \<Rightarrow> nat" where
  "line_count s = length (filter (\<lambda>c. c = CHR 0x0A) s)"


text \<open>
  The lines of a text: the pieces that a line feed ends, without the line feed, and a
  last piece that no line feed ends.
\<close>

fun text_lines :: "string \<Rightarrow> string list" where
  "text_lines [] = []"
| "text_lines (c # cs) =
     (if c = CHR 0x0A then [] # text_lines cs
      else (case text_lines cs of [] \<Rightarrow> [[c]] | l # ls \<Rightarrow> (c # l) # ls))"

subsection \<open>Reading a pretty-printed JSON text back\<close>

text \<open>
  A reader for JSON text laid out with two spaces a level: an empty array or object is
  \<^verbatim>\<open>[]\<close> or \<^verbatim>\<open>{}\<close>; in any other, every element or member stands on a line of
  its own, indented one level deeper than the bracket that holds it, a comma ends each
  but the last, a key is followed by a colon and one space, and the closing bracket
  stands on a line of its own at the level of the opening one. The reader takes the
  number of nested calls it may make; it gives the value read and the rest of the text,
  or nothing when the text is not laid out so.
\<close>

definition is_digit :: "char \<Rightarrow> bool" where
  "is_digit c = (48 \<le> (of_char c :: nat) \<and> (of_char c :: nat) \<le> 57)"

definition digit_val :: "char \<Rightarrow> nat" where
  "digit_val c = of_char c - 48"

definition hex_val :: "char \<Rightarrow> nat" where
  "hex_val c = (if (of_char c :: nat) \<le> 57 then of_char c - 48 else of_char c - 87)"

definition strip :: "string \<Rightarrow> string \<Rightarrow> string option" where
  "strip p s = (if prefix p s then Some (drop (length p) s) else None)"

definition unescape :: "char \<Rightarrow> char option" where
  "unescape e =
     (if e = CHR 0x5C then Some (CHR 0x5C)
      else if e = CHR 0x22 then Some (CHR 0x22)
      else if e = CHR ''b'' then Some (CHR 0x08)
      else if e = CHR ''f'' then Some (CHR 0x0C)
      else if e = CHR ''n'' then Some (CHR 0x0A)
      else if e = CHR ''r'' then Some (CHR 0x0D)
      else if e = CHR ''t'' then Some (CHR 0x09)
      else None)"

text \<open>The characters of a string up to its closing quote, escapes undone.\<close>

fun read_chars :: "string \<Rightarrow> (string \<times> string) option" where
  "read_chars [] = None"
| "read_chars (c # cs) =
     (if c = CHR 0x22 then Some ([], cs)
      else if c = CHR 0x5C then
        (case cs of
           [] \<Rightarrow> None
         | e # r \<Rightarrow>
             if e = CHR ''u'' then
               (case r of
                  a # b # h # l # r' \<Rightarrow>
                    if a = CHR ''0'' \<and> b = CHR ''0'' then
                      (case read_chars r' of
                         None \<Rightarrow> None
                       | Some (s, t) \<Rightarrow> Some (char_of (16 * hex_val h + hex_val l) # s, t))
                    else None
                | _ \<Rightarrow> None)
             else
               (case unescape e of
                  None \<Rightarrow> None
                | Some x \<Rightarrow>
                    (case read_chars r of None \<Rightarrow> None | Some (s, t) \<Rightarrow> Some (x # s, t))))
      else (case read_chars cs of None \<Rightarrow> None | Some (s, t) \<Rightarrow> Some (c # s, t)))"

definition read_string :: "string \<Rightarrow> (string \<times> string) option" where
  "read_string s = (case s of [] \<Rightarrow> None | c # cs \<Rightarrow> if c = CHR 0x22 then read_chars cs else None)"

definition read_nat :: "string \<Rightarrow> (nat \<times> string) option" where
  "read_nat s =
     (if takeWhile is_digit s = [] then None
      else Some (foldl (\<lambda>a c. 10 * a + digit_val c) 0 (takeWhile is_digit s), dropWhile is_digit s))"

definition read_int :: "string \<Rightarrow> (int \<times> string) option" where
  "read_int s =
     (case s of
        [] \<Rightarrow> None
      | c # cs \<Rightarrow>
          if c = CHR ''-'' then (case read_nat cs of None \<Rightarrow> None | Some (n, r) \<Rightarrow> Some (- int n, r))
          else (case read_nat s of None \<Rightarrow> None | Some (n, r) \<Rightarrow> Some (int n, r)))"

definition starts_int :: "string \<Rightarrow> bool" where
  "starts_int s = (case s of [] \<Rightarrow> False | c # cs \<Rightarrow> c = CHR ''-'' \<or> is_digit c)"

fun read_value :: "nat \<Rightarrow> nat \<Rightarrow> string \<Rightarrow> (json \<times> string) option"
  and read_items :: "nat \<Rightarrow> nat \<Rightarrow> string \<Rightarrow> (json list \<times> string) option"
  and read_members :: "nat \<Rightarrow> nat \<Rightarrow> string \<Rightarrow> ((string \<times> json) list \<times> string) option"
where
  "read_value 0 level s = None"
| "read_value (Suc n) level s =
     (if starts_int s then (case read_int s of None \<Rightarrow> None | Some (i, r) \<Rightarrow> Some (JInt i, r))
      else case strip ''null'' s of Some r \<Rightarrow> Some (JNull, r) | None \<Rightarrow>
        (case strip ''true'' s of Some r \<Rightarrow> Some (JBool True, r) | None \<Rightarrow>
        (case strip ''false'' s of Some r \<Rightarrow> Some (JBool False, r) | None \<Rightarrow>
        (case strip ''[]'' s of Some r \<Rightarrow> Some (JArr [], r) | None \<Rightarrow>
        (case strip ''{}'' s of Some r \<Rightarrow> Some (JObj [], r) | None \<Rightarrow>
        (case strip (''['' @ newline_indent (Suc level)) s of
           Some r \<Rightarrow>
             (case read_items n (Suc level) r of
                None \<Rightarrow> None
              | Some (xs, r') \<Rightarrow>
                  (case strip (newline_indent level @ '']'') r' of
                     None \<Rightarrow> None
                   | Some r'' \<Rightarrow> Some (JArr xs, r'')))
         | None \<Rightarrow>
        (case strip (''{'' @ newline_indent (Suc level)) s of
           Some r \<Rightarrow>
             (case read_members n (Suc level) r of
                None \<Rightarrow> None
              | Some (kvs, r') \<Rightarrow>
                  (case strip (newline_indent level @ ''}'') r' of
                     None \<Rightarrow> None
                   | Some r'' \<Rightarrow> Some (JObj kvs, r'')))
         | None \<Rightarrow>
        (case read_string s of Some (t, r) \<Rightarrow> Some (JStr t, r) | None \<Rightarrow> None))))))))"
| "read_items 0 level s = None"
| "read_items (Suc n) level s =
     (case read_value n level s of
        None \<Rightarrow> None
      | Some (x, r) \<Rightarrow>
          (case strip ('','' @ newline_indent level) r of
             None \<Rightarrow> Some ([x], r)
           | Some r' \<Rightarrow>
               (case read_items n level r' of None \<Rightarrow> None | Some (xs, r'') \<Rightarrow> Some (x # xs, r''))))"
| "read_members 0 level s = None"
| "read_members (Suc n) level s =
     (case read_string s of
        None \<Rightarrow> None
      | Some (k, r0) \<Rightarrow>
          (case strip '': '' r0 of
             None \<Rightarrow> None
           | Some r1 \<Rightarrow>
               (case read_value n level r1 of
                  None \<Rightarrow> None
                | Some (v, r) \<Rightarrow>
                    (case strip ('','' @ newline_indent level) r of
                       None \<Rightarrow> Some ([(k, v)], r)
                     | Some r' \<Rightarrow>
                         (case read_members n level r' of
                            None \<Rightarrow> None
                          | Some (kvs, r'') \<Rightarrow> Some ((k, v) # kvs, r''))))))"

text \<open>A number of nested calls that is enough to read a value back.\<close>

primrec fuel_of :: "json \<Rightarrow> nat" where
  "fuel_of JNull = 1"
| "fuel_of (JBool b) = 1"
| "fuel_of (JInt i) = 1"
| "fuel_of (JStr s) = 1"
| "fuel_of (JArr xs) = Suc (length xs + sum_list (map fuel_of xs))"
| "fuel_of (JObj kvs) = Suc (length kvs + sum_list (map snd (map (map_prod id fuel_of) kvs)))"

text \<open>
  The metric shown for a key of the metadata: its value, or the text \<^verbatim>\<open>N/A\<close> when
  the key is absent.
\<close>

definition or_na :: "(string \<times> json) list \<Rightarrow> string \<Rightarrow> json" where
  "or_na m k = (case map_of m k of None \<Rightarrow> JStr ''N/A'' | Some v \<Rightarrow> v)"

text \<open>The values \<^verbatim>\<open>st.metric\<close> accepts.\<close>

definition accepted_by_metric :: "json \<Rightarrow> bool" where
  "accepted_by_metric v = (case v of JArr xs \<Rightarrow> False | JObj kvs \<Rightarrow> False | _ \<Rightarrow> True)"

text \<open>The elements that only the table section puts on the page.\<close>

fun table_part :: "'c element \<Rightarrow> bool" where
  "table_part (Dataframe df) = True"
| "table_part (Download_CSV b n) = True"
| "table_part (Download_JSON b n) = True"
| "table_part e = False"

text \<open>
  The frame that reaches \<^verbatim>\<open>st.dataframe\<close> and the CSV download, when the table
  section gets that far: \<^verbatim>\<open>data\<close> is present and true, the frame is built and the
  filter returns.
\<close>

definition shown_view :: "('c, 'p) library \<Rightarrow> json \<Rightarrow> string \<Rightarrow> 'c frame option" where
  "shown_view L d pat =
     (case d of
        JObj kvs \<Rightarrow>
          (case map_of kvs ''data'' of
             None \<Rightarrow> None
           | Some data \<Rightarrow>
               if truthy data then
                 (case DataFrame L data of
                    Inl e \<Rightarrow> None
                  | Inr df \<Rightarrow>
                      (case filter_block L df pat of Inl e \<Rightarrow> None | Inr (v, note) \<Rightarrow> Some v))
               else None)
      | _ \<Rightarrow> None)"

text \<open>The line feeds inside the column names and the cell texts of a frame.\<close>

definition inner_line_feeds :: "('c, 'p) library \<Rightarrow> 'c frame \<Rightarrow> nat" where
  "inner_line_feeds L df =
     sum_list (map line_count (columns df))
     + sum_list (map (\<lambda>(i, cells). sum_list (map (\<lambda>c. line_count (csv_cell L c)) cells)) (rows df))"

section \<open>Properties of the API client\<close>

lemma sent_get_ekatalog_data:
  "sent (get_ekatalog_data network self ua lim sd ed) = [get_request self ua lim sd ed]"
  by (simp add: get_ekatalog_data_def Let_def split: sum.splits)

lemma map_of_query_params_limit:
  "map_of (query_params lim sd ed) ''limit'' = Some (PInt lim)"
  by (simp add: query_params_def Let_def split: option.splits)

lemma map_of_query_params_start:
  "map_of (query_params lim sd ed) ''start_date'' =
     (case sd of None \<Rightarrow> None | Some s \<Rightarrow> if s = [] then None else Some (PStr s))"
  by (simp add: query_params_def Let_def split: option.splits)

lemma map_of_query_params_end:
  "map_of (query_params lim sd ed) ''end_date'' =
     (case ed of None \<Rightarrow> None | Some s \<Rightarrow> if s = [] then None else Some (PStr s))"
  by (simp add: query_params_def Let_def split: option.splits)

lemma distinct_query_params: "distinct (map fst (query_params lim sd ed))"
  by (simp add: query_params_def Let_def split: option.splits)

text \<open>
  With a comma put after the eleventh token, where the \<^verbatim>\<open>Content-Type\<close> entry ends,
  the literal is the four-entry mapping that \<open>InaprocAPIClient\<close> holds.
\<close>

lemma header_literal_with_separator:
  "dict_display (take 11 (headers_tokens jwt) @ [COMMA] @ drop 11 (headers_tokens jwt))
     = Inr (headers (InaprocAPIClient jwt))"
  by (simp add: dict_display_def headers_tokens_def InaprocAPIClient_def)

text \<open>
  On that reading every call of the fetch operation passes one request to
  \<^verbatim>\<open>requests.get\<close>, with the four headers and a timeout of 30 seconds.
\<close>

lemma request_with_separated_headers:
  "sent (get_ekatalog_data network (InaprocAPIClient jwt) ua lim sd ed)
     = [get_request (InaprocAPIClient jwt) ua lim sd ed]
   \<and> req_headers (get_request (InaprocAPIClient jwt) ua lim sd ed)
     = [(''Authorization'', ''Bearer '' @ jwt), (''Accept'', ''application/json''),
        (''Content-Type'', ''application/json''), (''User-Agent'', ''curl/8.5.0'')]
   \<and> req_timeout (get_request (InaprocAPIClient jwt) ua lim sd ed) = 30"
  by (simp add: sent_get_ekatalog_data get_request_def InaprocAPIClient_def)

text \<open>
  Claim C2 (the headers of the request are the four-entry mapping Authorization,
  Accept, Content-Type, User-Agent): the header literal as the file has it is not such
  a mapping. For every credential, reading the literal's tokens as a dict display
  fails with a syntax error: the value of \<^verbatim>\<open>Content-Type\<close> runs into the next
  key, and a second colon follows.
\<close>

theorem C2_header_literal_is_rejected:
  "dict_display (headers_tokens jwt) = Inl SyntaxError"
  by (simp add: dict_display_def headers_tokens_def)

text \<open>
  Claim C5: every call of the fetch operation sends one request; its URL is the base
  URL, \<^verbatim>\<open>/v1/\<close>, then \<^verbatim>\<open>ekatalog-archive\<close> when \<^verbatim>\<open>use_archive\<close> is true and
  \<^verbatim>\<open>ekatalog\<close> otherwise, then \<^verbatim>\<open>/paket-e-purchasing\<close>, so the two URLs differ in
  that segment only; for the client the script builds, the sixth part of the URL
  between slashes is \<^verbatim>\<open>ekatalog-archive\<close> exactly when \<^verbatim>\<open>use_archive\<close> is true and
  \<^verbatim>\<open>ekatalog\<close> exactly when it is false.
\<close>

theorem C5_endpoint_path_segment:
  "sent (get_ekatalog_data network self ua lim sd ed) = [get_request self ua lim sd ed]
   \<and> req_url (get_request self ua lim sd ed)
       = base_url self @ ''/v1/'' @ (if ua then ''ekatalog-archive'' else ''ekatalog'')
         @ ''/paket-e-purchasing''
   \<and> split_on CHR ''/'' (req_url (get_request (InaprocAPIClient jwt) ua lim sd ed))
       = [''https:'', [], ''data.inaproc.id'', ''api'', ''v1'',
          if ua then ''ekatalog-archive'' else ''ekatalog'', ''paket-e-purchasing'']
   \<and> (split_on CHR ''/'' (req_url (get_request (InaprocAPIClient jwt) ua lim sd ed)) ! 5
        = ''ekatalog-archive'') = ua
   \<and> (split_on CHR ''/'' (req_url (get_request (InaprocAPIClient jwt) ua lim sd ed)) ! 5
        = ''ekatalog'') = (\<not> ua)"
  by (simp add: sent_get_ekatalog_data get_request_def endpoint_def InaprocAPIClient_def)

text \<open>
  Claim C6: for every state of the sidebar, the request sent by the fetch carries the
  parameters built from the limit and the two dates; \<^verbatim>\<open>limit\<close> is always among them
  with the chosen value; \<^verbatim>\<open>start_date\<close> (and likewise \<^verbatim>\<open>end_date\<close>) is among them,
  with the formatted date as its value, exactly when the date filter is ticked and the
  formatted date is not empty, and is absent otherwise; no key occurs twice.
\<close>

theorem C6_query_parameters:
  "map req_params (sent (fetch_call L i))
     = [query_params (limit i) (fst (date_filter L i)) (snd (date_filter L i))]
   \<and> map_of (query_params (limit i) (fst (date_filter L i)) (snd (date_filter L i))) ''limit''
       = Some (PInt (limit i))
   \<and> map_of (query_params (limit i) (fst (date_filter L i)) (snd (date_filter L i))) ''start_date''
       = (if use_date_filter i \<and> strftime_ymd L (start_date_input i) \<noteq> []
          then Some (PStr (strftime_ymd L (start_date_input i))) else None)
   \<and> map_of (query_params (limit i) (fst (date_filter L i)) (snd (date_filter L i))) ''end_date''
       = (if use_date_filter i \<and> strftime_ymd L (end_date_input i) \<noteq> []
          then Some (PStr (strftime_ymd L (end_date_input i))) else None)
   \<and> distinct (map fst (query_params (limit i) (fst (date_filter L i)) (snd (date_filter L i))))"
  by (simp add: fetch_call_def sent_get_ekatalog_data get_request_def map_of_query_params_limit
        map_of_query_params_start map_of_query_params_end distinct_query_params date_filter_def)

text \<open>
  Claim C7, as amended: when the network answers the request with a response whose
  status is from 400 to 599, the fetch raises the HTTP status error that carries
  this response (its status code and its raw body), shows the status code and the body,
  and has sent the one request, with no second attempt. A response with any other
  status passes the status check: its decoded body is returned, or the decoding error
  is shown and raised.
\<close>

theorem C7_status_error_4xx_5xx:
  assumes "network (get_request self ua lim sd ed) = Responded r"
  shows "get_ekatalog_data network self ua lim sd ed =
     (if 400 \<le> status_code r \<and> status_code r < 600
      then \<lparr>outcome = Inl (HTTPError r),
            shown = [Error_HTTP (status_code r), Error_Response (body_text r)],
            sent = [get_request self ua lim sd ed]\<rparr>
      else case body_json r of
             Some data \<Rightarrow> \<lparr>outcome = Inr data, shown = [], sent = [get_request self ua lim sd ed]\<rparr>
           | None \<Rightarrow> \<lparr>outcome = Inl JSONDecodeError, shown = [Error_Request JSONDecodeError],
                       sent = [get_request self ua lim sd ed]\<rparr>)"
  using assms
  by (simp add: get_ekatalog_data_def try_get_def raise_for_status_def except_clauses_def Let_def
        split: option.splits)

text \<open>The amended claim C7 at a 404 response with the body \<^verbatim>\<open>Not Found\<close>.\<close>

theorem C7_status_error_4xx_5xx_witness:
  "get_ekatalog_data (\<lambda>rq. Responded \<lparr>status_code = 404, body_text = ''Not Found'', body_json = None\<rparr>)
      (InaprocAPIClient ''t'') False 10 None None
   = \<lparr>outcome = Inl (HTTPError \<lparr>status_code = 404, body_text = ''Not Found'', body_json = None\<rparr>),
      shown = [Error_HTTP 404, Error_Response ''Not Found''],
      sent = [get_request (InaprocAPIClient ''t'') False 10 None None]\<rparr>"
  using C7_status_error_4xx_5xx [of "\<lambda>rq. Responded \<lparr>status_code = 404, body_text = ''Not Found'', body_json = None\<rparr>"
      "InaprocAPIClient ''t''" False 10 None None "\<lparr>status_code = 404, body_text = ''Not Found'', body_json = None\<rparr>"]
  by simp

text \<open>
  Claim C7 as stated fails: a response with status 300, which is not a 2xx status, and
  the body \<^verbatim>\<open>{}\<close> raises nothing; the fetch returns the decoded body and shows no
  error.
\<close>

theorem C7_non_2xx_counterexample:
  "\<not> (200 \<le> status_code \<lparr>status_code = 300, body_text = ''{}'', body_json = Some (JObj [])\<rparr>
        \<and> status_code \<lparr>status_code = 300, body_text = ''{}'', body_json = Some (JObj [])\<rparr> < 300)
   \<and> outcome (get_ekatalog_data
         (\<lambda>rq. Responded \<lparr>status_code = 300, body_text = ''{}'', body_json = Some (JObj [])\<rparr>)
         (InaprocAPIClient ''t'') False 10 None None) = Inr (JObj [])
   \<and> shown (get_ekatalog_data
         (\<lambda>rq. Responded \<lparr>status_code = 300, body_text = ''{}'', body_json = Some (JObj [])\<rparr>)
         (InaprocAPIClient ''t'') False 10 None None) = []"
  by (simp add: get_ekatalog_data_def try_get_def raise_for_status_def Let_def)

section \<open>Properties of the presentation layer\<close>

text \<open>
  Claim C4: when the fetch button is pressed with a credential and the fetch raises an
  error (an HTTP status error, a transport error, a decoding error), the session state
  after the action is exactly the state before it, all three fields included; the
  page shows what the client showed and then the error message of the handler; and the
  rest of the run displays the stored response as it was.
\<close>

theorem C4_failed_fetch_keeps_session_state:
  assumes "jwt_token i \<noteq> []" and "fetch_button i" and "outcome (fetch_call L i) = Inl e"
  shows "fst (fetch_section L i st) = st
     \<and> snd (fetch_section L i st) = shown (fetch_call L i) @ [Error_Fetch e]
     \<and> fst (script_run L i st) = st
     \<and> snd (script_run L i st)
         = (map Message (shown (fetch_call L i) @ [Error_Fetch e]) @ fst (display L st (search i)),
            snd (display L st (search i)))"
  using assms
  by (simp add: fetch_section_def script_run_def Let_def split: prod.splits)

text \<open>
  Claim C4 at a transport failure: the network refuses the request, a response is
  already stored, and the state stays as it was while both error messages are shown.
\<close>

theorem C4_failed_fetch_keeps_session_state_witness:
  "jwt_token \<lparr>jwt_token = ''t'', use_archive = False, limit = 10, use_date_filter = False,
        start_date_input = (2024, 1, 1), end_date_input = (2024, 1, 31), fetch_button = True,
        search = []\<rparr> \<noteq> []
   \<and> fst (fetch_section (text_library (\<lambda>rq. Refused ''timed out''))
        \<lparr>jwt_token = ''t'', use_archive = False, limit = 10, use_date_filter = False,
        start_date_input = (2024, 1, 1), end_date_input = (2024, 1, 31), fetch_button = True,
        search = []\<rparr>
        \<lparr>ekatalog_data = Some (JObj []), last_fetch = Some 7, is_archive = Some True\<rparr>)
       = \<lparr>ekatalog_data = Some (JObj []), last_fetch = Some 7, is_archive = Some True\<rparr>
   \<and> snd (fetch_section (text_library (\<lambda>rq. Refused ''timed out''))
        \<lparr>jwt_token = ''t'', use_archive = False, limit = 10, use_date_filter = False,
        start_date_input = (2024, 1, 1), end_date_input = (2024, 1, 31), fetch_button = True,
        search = []\<rparr>
        \<lparr>ekatalog_data = Some (JObj []), last_fetch = Some 7, is_archive = Some True\<rparr>)
       = [Error_Request (TransportError ''timed out''), Error_Fetch (TransportError ''timed out'')]"
proof -
  let ?L = "text_library (\<lambda>rq. Refused ''timed out'')"
  let ?i = "\<lparr>jwt_token = ''t'', use_archive = False, limit = 10, use_date_filter = False,
        start_date_input = (2024, 1, 1), end_date_input = (2024, 1, 31), fetch_button = True,
        search = []\<rparr>"
  have o: "outcome (fetch_call ?L ?i) = Inl (TransportError ''timed out'')"
    by (simp add: fetch_call_def get_ekatalog_data_def try_get_def text_library_def Let_def)
  have s: "shown (fetch_call ?L ?i) = [Error_Request (TransportError ''timed out'')]"
    by (simp add: fetch_call_def get_ekatalog_data_def try_get_def text_library_def Let_def
          except_clauses_def)
  have j: "jwt_token ?i \<noteq> []" and b: "fetch_button ?i" by simp_all
  show ?thesis
    using C4_failed_fetch_keeps_session_state [OF j b o] s by simp
qed

lemma metrics_of_append: "metrics_of (xs @ ys) = metrics_of xs @ metrics_of ys"
  by (induction xs rule: metrics_of.induct) simp_all

lemma run_steps_append:
  "run_steps (xs @ ys) =
     (case snd (run_steps xs) of
        Some e \<Rightarrow> run_steps xs
      | None \<Rightarrow> (fst (run_steps xs) @ fst (run_steps ys), snd (run_steps ys)))"
  by (induction xs rule: run_steps.induct) (auto split: prod.splits option.splits)

lemma run_steps_map_Inr: "run_steps (map Inr xs) = (xs, None)"
  by (induction xs) simp_all

lemma metrics_of_table_steps: "metrics_of (fst (run_steps (table_steps L d pat))) = []"
  by (auto simp: table_steps_def filter_block_def Let_def run_steps_append run_steps_map_Inr
        split: json.splits option.splits sum.splits prod.splits if_splits)

lemma metrics_of_run_steps_append:
  "metrics_of (fst (run_steps ys)) = [] \<Longrightarrow>
   metrics_of (fst (run_steps (xs @ ys))) = metrics_of (fst (run_steps xs))"
  by (simp add: run_steps_append metrics_of_append split: option.splits)

lemma metrics_of_display:
  fixes L :: "('c, 'p) library"
  assumes "ekatalog_data st = Some d"
  shows "metrics_of (fst (display L st pat))
     = metrics_of (fst (run_steps ((success_step st :: py_error + 'c element) # metrics_steps d)))"
proof -
  have "display L st pat = run_steps ((success_step st # metrics_steps d) @ table_steps L d pat)"
    using assms by (simp add: display_def)
  then show ?thesis
    using metrics_of_run_steps_append [OF metrics_of_table_steps] by metis
qed

lemma py_get_or_na: "py_get (JObj m) k (JStr ''N/A'') = Inr (or_na m k)"
  by (simp add: or_na_def)

lemma metrics_steps_no_meta:
  "map_of kvs ''meta'' = None \<Longrightarrow> metrics_steps (JObj kvs) = []"
  by (simp add: metrics_steps_def)

lemma metrics_steps_falsy_meta:
  "map_of kvs ''meta'' = Some v \<Longrightarrow> \<not> truthy v \<Longrightarrow> metrics_steps (JObj kvs) = []"
  by (simp add: metrics_steps_def)

lemma st_metric_accepted: "accepted_by_metric v \<Longrightarrow> st_metric label v = Inr (Metric label v)"
  by (cases v) (simp_all add: st_metric_def accepted_by_metric_def)

lemma metrics_steps_meta:
  assumes "map_of kvs ''meta'' = Some (JObj m)" and "m \<noteq> []"
    and "py_len (case map_of kvs ''data'' of None \<Rightarrow> JArr [] | Some v \<Rightarrow> v) = Inr n"
    and "accepted_by_metric (or_na m ''page'')" and "accepted_by_metric (or_na m ''per_page'')"
    and "accepted_by_metric (or_na m ''total'')"
  shows "metrics_steps (JObj kvs) =
     [Inr (Subheader ''Informasi Data''), Inr (Metric ''Total Data'' (JInt (int n))),
      Inr (Metric ''Page'' (or_na m ''page'')), Inr (Metric ''Per Page'' (or_na m ''per_page'')),
      Inr (Metric ''Total Records'' (or_na m ''total''))]"
proof -
  have t: "truthy (JObj m)" using assms(2) by simp
  have d: "py_get (JObj kvs) ''data'' (JArr []) = Inr (case map_of kvs ''data'' of None \<Rightarrow> JArr [] | Some v \<Rightarrow> v)"
    by simp
  have c: "st_metric ''Total Data'' (JInt (int n)) = (Inr (Metric ''Total Data'' (JInt (int n))) :: py_error + 'a element)"
    by (simp add: st_metric_def)
  have g: "py_get (JObj kvs) ''meta'' (JObj []) = Inr (JObj m)"
    using assms(1) by simp
  show ?thesis
    unfolding metrics_steps_def g
    by (simp only: t d c assms(3) py_get_or_na st_metric_accepted [OF assms(4)]
          st_metric_accepted [OF assms(5)] st_metric_accepted [OF assms(6)]
          sum.case if_True)
qed

lemma metrics_of_success: "metrics_of (fst (run_steps [success_step st])) = []"
  by (simp add: success_step_def split: option.splits)

text \<open>
  Claim C1, as amended: the metrics stand inside \<^verbatim>\<open>if meta:\<close>. For a stored response
  in which \<^verbatim>\<open>meta\<close> is absent, or is present and false (empty), no metric is shown
  at all. For a response whose \<^verbatim>\<open>meta\<close> is a mapping that is not empty, whose
  \<^verbatim>\<open>data\<close> (or the empty list, when absent) has a length, and whose values for
  \<^verbatim>\<open>page\<close>, \<^verbatim>\<open>per_page\<close> and \<^verbatim>\<open>total\<close> are values a metric accepts, the page
  shows four metrics: the length of \<^verbatim>\<open>data\<close>, and for each of the three keys its
  value in \<^verbatim>\<open>meta\<close>, or \<^verbatim>\<open>N/A\<close> when \<^verbatim>\<open>meta\<close> lacks the key.
\<close>

theorem C1_metrics_shown_only_with_metadata:
  fixes L :: "('c, 'p) library"
  assumes "ekatalog_data st = Some (JObj kvs)"
  shows "(map_of kvs ''meta'' = None \<longrightarrow> metrics_of (fst (display L st pat)) = [])
     \<and> (\<forall>v. map_of kvs ''meta'' = Some v \<and> \<not> truthy v \<longrightarrow> metrics_of (fst (display L st pat)) = [])
     \<and> (\<forall>m n t. map_of kvs ''meta'' = Some (JObj m) \<and> m \<noteq> [] \<and> last_fetch st = Some t
          \<and> py_len (case map_of kvs ''data'' of None \<Rightarrow> JArr [] | Some v \<Rightarrow> v) = Inr n
          \<and> accepted_by_metric (or_na m ''page'') \<and> accepted_by_metric (or_na m ''per_page'')
          \<and> accepted_by_metric (or_na m ''total'')
          \<longrightarrow> metrics_of (fst (display L st pat))
              = [(''Total Data'', JInt (int n)), (''Page'', or_na m ''page''),
                 (''Per Page'', or_na m ''per_page''), (''Total Records'', or_na m ''total'')])"
proof (intro conjI allI impI)
  assume "map_of kvs ''meta'' = None"
  then show "metrics_of (fst (display L st pat)) = []"
    using metrics_of_success [where ?'a = 'c, of st]
    by (simp add: metrics_of_display [OF assms] metrics_steps_no_meta)
next
  fix v assume "map_of kvs ''meta'' = Some v \<and> \<not> truthy v"
  then show "metrics_of (fst (display L st pat)) = []"
    using metrics_of_success [where ?'a = 'c, of st]
    by (simp add: metrics_of_display [OF assms] metrics_steps_falsy_meta)
next
  fix m n t
  assume a: "map_of kvs ''meta'' = Some (JObj m) \<and> m \<noteq> [] \<and> last_fetch st = Some t
          \<and> py_len (case map_of kvs ''data'' of None \<Rightarrow> JArr [] | Some v \<Rightarrow> v) = Inr n
          \<and> accepted_by_metric (or_na m ''page'') \<and> accepted_by_metric (or_na m ''per_page'')
          \<and> accepted_by_metric (or_na m ''total'')"
  then have "(metrics_steps (JObj kvs) :: (py_error + 'c element) list) =
     [Inr (Subheader ''Informasi Data''), Inr (Metric ''Total Data'' (JInt (int n))),
      Inr (Metric ''Page'' (or_na m ''page'')), Inr (Metric ''Per Page'' (or_na m ''per_page'')),
      Inr (Metric ''Total Records'' (or_na m ''total''))]"
    by (intro metrics_steps_meta) simp_all
  with a show "metrics_of (fst (display L st pat))
              = [(''Total Data'', JInt (int n)), (''Page'', or_na m ''page''),
                 (''Per Page'', or_na m ''per_page''), (''Total Records'', or_na m ''total'')]"
    by (simp add: metrics_of_display [OF assms] success_step_def)
qed


text \<open>
  The amended claim C1 at two stored responses of one record: without \<^verbatim>\<open>meta\<close> no
  metric is shown; with \<^verbatim>\<open>meta = {"page": 2}\<close> the count is 1, the page is 2 and the
  two missing keys show \<^verbatim>\<open>N/A\<close>.
\<close>

theorem C1_metrics_shown_only_with_metadata_witness:
  "metrics_of (fst (display (text_library (\<lambda>rq. Refused ''down''))
      \<lparr>ekatalog_data = Some (JObj [(''data'', JArr [JObj [(''a'', JStr ''x'')]])]),
       last_fetch = Some 7, is_archive = Some False\<rparr> [])) = []
   \<and> metrics_of (fst (display (text_library (\<lambda>rq. Refused ''down''))
      \<lparr>ekatalog_data = Some (JObj [(''data'', JArr [JObj [(''a'', JStr ''x'')]]),
                                  (''meta'', JObj [(''page'', JInt 2)])]),
       last_fetch = Some 7, is_archive = Some False\<rparr> []))
     = [(''Total Data'', JInt 1), (''Page'', JInt 2), (''Per Page'', JStr ''N/A''),
        (''Total Records'', JStr ''N/A'')]"
proof -
  let ?L = "text_library (\<lambda>rq. Refused ''down'')"
  let ?k1 = "[(''data'', JArr [JObj [(''a'', JStr ''x'')]])]"
  let ?k2 = "[(''data'', JArr [JObj [(''a'', JStr ''x'')]]), (''meta'', JObj [(''page'', JInt 2)])]"
  let ?s1 = "\<lparr>ekatalog_data = Some (JObj ?k1), last_fetch = Some 7, is_archive = Some False\<rparr>"
  let ?s2 = "\<lparr>ekatalog_data = Some (JObj ?k2), last_fetch = Some 7, is_archive = Some False\<rparr>"
  have e1: "ekatalog_data ?s1 = Some (JObj ?k1)" and e2: "ekatalog_data ?s2 = Some (JObj ?k2)"
    by simp_all
  have a: "metrics_of (fst (display ?L ?s1 [])) = []"
    using C1_metrics_shown_only_with_metadata [OF e1, of ?L "[]"] by simp
  have "map_of ?k2 ''meta'' = Some (JObj [(''page'', JInt 2)]) \<and> [(''page'', JInt 2)] \<noteq> []
      \<and> last_fetch ?s2 = Some 7
      \<and> py_len (case map_of ?k2 ''data'' of None \<Rightarrow> JArr [] | Some v \<Rightarrow> v) = Inr 1
      \<and> accepted_by_metric (or_na [(''page'', JInt 2)] ''page'')
      \<and> accepted_by_metric (or_na [(''page'', JInt 2)] ''per_page'')
      \<and> accepted_by_metric (or_na [(''page'', JInt 2)] ''total'')"
    by (simp add: or_na_def accepted_by_metric_def)
  then have "metrics_of (fst (display ?L ?s2 []))
     = [(''Total Data'', JInt (int 1)), (''Page'', or_na [(''page'', JInt 2)] ''page''),
        (''Per Page'', or_na [(''page'', JInt 2)] ''per_page''),
        (''Total Records'', or_na [(''page'', JInt 2)] ''total'')]"
    using C1_metrics_shown_only_with_metadata [OF e2, of ?L "[]"] by blast
  then have b: "metrics_of (fst (display ?L ?s2 []))
     = [(''Total Data'', JInt 1), (''Page'', JInt 2), (''Per Page'', JStr ''N/A''),
        (''Total Records'', JStr ''N/A'')]"
    by (simp add: or_na_def)
  from a b show ?thesis by simp
qed

text \<open>
  Claim C1 as stated fails: for a stored response of one record and no \<^verbatim>\<open>meta\<close> key,
  the run completes and the page holds the status line, the table and the downloads,
  but no metric: neither \<^verbatim>\<open>N/A\<close> nor the record count is displayed.
\<close>

theorem C1_no_metadata_counterexample:
  "map_of [(''data'', JArr [JObj [(''a'', JStr ''x'')]])] ''meta'' = None
   \<and> display (text_library (\<lambda>rq. Refused ''down''))
      \<lparr>ekatalog_data = Some (JObj [(''data'', JArr [JObj [(''a'', JStr ''x'')]])]),
       last_fetch = Some 7, is_archive = Some False\<rparr> []
     = ([Success ''Aktif'' 7, Subheader ''Data Paket E-Purchasing'', Text_input [],
         Dataframe \<lparr>columns = [''a''], rows = [(0, [''x''])]\<rparr>,
         Subheader ''Unduh Data'',
         Download_CSV (''a'' @ [CHR 0x0A] @ ''x'' @ [CHR 0x0A]) ''inaproc_ekatalog_20240101_120000.csv'',
         Download_JSON (json_dumps (JObj [(''data'', JArr [JObj [(''a'', JStr ''x'')]])]))
           ''inaproc_ekatalog_20240101_120000.json'',
         Expander_JSON (JObj [(''data'', JArr [JObj [(''a'', JStr ''x'')]])])], None)
   \<and> metrics_of (fst (display (text_library (\<lambda>rq. Refused ''down''))
      \<lparr>ekatalog_data = Some (JObj [(''data'', JArr [JObj [(''a'', JStr ''x'')]])]),
       last_fetch = Some 7, is_archive = Some False\<rparr> [])) = []"
  by (simp add: display_def success_step_def metrics_steps_def table_steps_def text_library_def
        text_frame_def filter_block_def to_csv_def writerow_def csv_line_def csv_field_def needs_quotes_def
        encode_utf8_def utf8_char_def)

subsection \<open>What the head of the page and the table section contribute\<close>

lemma frames_of_append: "frames_of (xs @ ys) = frames_of xs @ frames_of ys"
  by (induction xs rule: frames_of.induct) simp_all

lemma csv_of_append: "csv_of (xs @ ys) = csv_of xs @ csv_of ys"
  by (induction xs rule: csv_of.induct) simp_all

lemma json_of_append: "json_of (xs @ ys) = json_of xs @ json_of ys"
  by (induction xs rule: json_of.induct) simp_all

lemma no_table_part:
  "list_all (\<lambda>x. \<not> table_part x) xs \<Longrightarrow> frames_of xs = [] \<and> csv_of xs = [] \<and> json_of xs = []"
  by (induction xs rule: frames_of.induct) simp_all

lemma run_steps_no_table_part:
  "list_all (\<lambda>s. case s of Inl e \<Rightarrow> True | Inr x \<Rightarrow> \<not> table_part x) ss \<Longrightarrow>
   list_all (\<lambda>x. \<not> table_part x) (fst (run_steps ss))"
  by (induction ss rule: run_steps.induct) (auto split: prod.splits)

lemma st_metric_no_table_part:
  "(case (st_metric label v :: py_error + 'c element) of Inl e \<Rightarrow> True | Inr x \<Rightarrow> \<not> table_part x)"
  by (cases v) (simp_all add: st_metric_def)

lemma step_no_table_part:
  "(case (case r of Inl e \<Rightarrow> Inl e | Inr v \<Rightarrow> (st_metric label v :: py_error + 'c element)) of
      Inl e \<Rightarrow> True | Inr x \<Rightarrow> \<not> table_part x)"
  using st_metric_no_table_part by (cases r) simp_all

lemma count_step_no_table_part:
  "(case (case r of Inl e \<Rightarrow> Inl e
          | Inr v \<Rightarrow> (case py_len v of Inl e \<Rightarrow> Inl e
                       | Inr n \<Rightarrow> (st_metric label (JInt (int n)) :: py_error + 'c element))) of
      Inl e \<Rightarrow> True | Inr x \<Rightarrow> \<not> table_part x)"
  by (cases r) (simp_all add: st_metric_def split: sum.splits)

lemma head_no_table_part:
  "list_all (\<lambda>s. case s of Inl e \<Rightarrow> True | Inr x \<Rightarrow> \<not> table_part x)
     ((success_step st :: py_error + 'c element) # metrics_steps d)"
proof -
  have "case (success_step st :: py_error + 'c element) of Inl e \<Rightarrow> True | Inr x \<Rightarrow> \<not> table_part x"
    by (simp add: success_step_def split: option.splits)
  moreover have "list_all (\<lambda>s. case s of Inl e \<Rightarrow> True | Inr x \<Rightarrow> \<not> table_part x)
     (metrics_steps d :: (py_error + 'c element) list)"
    unfolding metrics_steps_def
    by (cases "py_get d ''meta'' (JObj [])")
       (simp_all add: step_no_table_part count_step_no_table_part)
  ultimately show ?thesis by simp
qed

text \<open>The page is the head of the run, then the table section if the head did not raise.\<close>

lemma display_parts:
  fixes L :: "('c, 'p) library"
  assumes "ekatalog_data st = Some d"
  shows "display L st pat =
     (case snd (run_steps ((success_step st :: py_error + 'c element) # metrics_steps d)) of
        Some e \<Rightarrow> run_steps (success_step st # metrics_steps d)
      | None \<Rightarrow> (fst (run_steps ((success_step st :: py_error + 'c element) # metrics_steps d))
                    @ fst (run_steps (table_steps L d pat)),
                  snd (run_steps (table_steps L d pat))))"
proof -
  have "display L st pat = run_steps ((success_step st # metrics_steps d) @ table_steps L d pat)"
    using assms by (simp add: display_def)
  then show ?thesis by (simp only: run_steps_append)
qed

lemma head_projections:
  "frames_of (fst (run_steps ((success_step st :: py_error + 'c element) # metrics_steps d))) = []
   \<and> csv_of (fst (run_steps ((success_step st :: py_error + 'c element) # metrics_steps d))) = []
   \<and> json_of (fst (run_steps ((success_step st :: py_error + 'c element) # metrics_steps d))) = []"
  by (rule no_table_part [OF run_steps_no_table_part [OF head_no_table_part]])

lemma display_table_projections:
  fixes L :: "('c, 'p) library"
  assumes "ekatalog_data st = Some d"
  shows "frames_of (fst (display L st pat)) =
           (if snd (run_steps ((success_step st :: py_error + 'c element) # metrics_steps d)) = None
            then frames_of (fst (run_steps (table_steps L d pat))) else [])"
    and "csv_of (fst (display L st pat)) =
           (if snd (run_steps ((success_step st :: py_error + 'c element) # metrics_steps d)) = None
            then csv_of (fst (run_steps (table_steps L d pat))) else [])"
    and "json_of (fst (display L st pat)) =
           (if snd (run_steps ((success_step st :: py_error + 'c element) # metrics_steps d)) = None
            then json_of (fst (run_steps (table_steps L d pat))) else [])"
  by (simp_all add: display_parts [OF assms] head_projections frames_of_append csv_of_append
        json_of_append split: option.splits)


lemma filter_block_note:
  "filter_block L df pat = Inr (v, note) \<Longrightarrow>
   note = (if pat = [] then [] else [Write_count (length (rows v)) (length (rows df))])"
  by (auto simp: filter_block_def Let_def split: if_splits sum.splits)

lemma table_steps_reached:
  assumes "map_of kvs ''data'' = Some data" and "truthy data" and "DataFrame L data = Inr df"
    and "filter_block L df pat = Inr (v, note)"
  shows "run_steps (table_steps L (JObj kvs) pat) =
     ([Subheader ''Data Paket E-Purchasing'', Text_input pat] @ note
      @ [Dataframe v, Subheader ''Unduh Data'',
         Download_CSV (encode_utf8 (to_csv L v)) (''inaproc_ekatalog_'' @ stamp_csv L @ ''.csv''),
         Download_JSON (json_dumps (JObj kvs)) (''inaproc_ekatalog_'' @ stamp_json L @ ''.json''),
         Expander_JSON (JObj kvs)], None)"
  using assms by (simp add: table_steps_def run_steps_append run_steps_map_Inr)

lemma table_steps_not_reached:
  assumes "shown_view L d pat = None"
  shows "list_all (\<lambda>x. \<not> table_part x) (fst (run_steps (table_steps L d pat)))"
  using assms
  by (auto simp: shown_view_def table_steps_def split: json.splits option.splits sum.splits
        if_splits)

lemma table_steps_completed:
  assumes "snd (run_steps (table_steps L (JObj kvs) pat)) = None"
    and "map_of kvs ''data'' = Some data" and "truthy data"
  shows "shown_view L (JObj kvs) pat \<noteq> None"
  using assms
  by (auto simp: shown_view_def table_steps_def split: sum.splits)

lemma table_projections:
  "frames_of (fst (run_steps (table_steps L d pat)))
     = (case shown_view L d pat of None \<Rightarrow> [] | Some v \<Rightarrow> [v])"
  "csv_of (fst (run_steps (table_steps L d pat)))
     = (case shown_view L d pat of None \<Rightarrow> [] | Some v \<Rightarrow> [encode_utf8 (to_csv L v)])"
  "json_of (fst (run_steps (table_steps L d pat)))
     = (case shown_view L d pat of None \<Rightarrow> [] | Some v \<Rightarrow> [json_dumps d])"
proof -
  have "frames_of (fst (run_steps (table_steps L d pat)))
     = (case shown_view L d pat of None \<Rightarrow> [] | Some v \<Rightarrow> [v])
    \<and> csv_of (fst (run_steps (table_steps L d pat)))
     = (case shown_view L d pat of None \<Rightarrow> [] | Some v \<Rightarrow> [encode_utf8 (to_csv L v)])
    \<and> json_of (fst (run_steps (table_steps L d pat)))
     = (case shown_view L d pat of None \<Rightarrow> [] | Some v \<Rightarrow> [json_dumps d])"
  proof (cases "shown_view L d pat")
    case None
    then show ?thesis using no_table_part [OF table_steps_not_reached [OF None]] by simp
  next
    case (Some v)
    then obtain kvs data df cnt where d: "d = JObj kvs" and m: "map_of kvs ''data'' = Some data"
      and t: "truthy data" and f: "DataFrame L data = Inr df"
      and b: "filter_block L df pat = Inr (v, cnt)"
      by (auto simp: shown_view_def split: json.splits option.splits sum.splits if_splits)
    show ?thesis
      using Some filter_block_note [OF b]
      by (simp add: d table_steps_reached [OF m t f b] frames_of_append csv_of_append
            json_of_append)
  qed
  then show "frames_of (fst (run_steps (table_steps L d pat)))
     = (case shown_view L d pat of None \<Rightarrow> [] | Some v \<Rightarrow> [v])"
    and "csv_of (fst (run_steps (table_steps L d pat)))
     = (case shown_view L d pat of None \<Rightarrow> [] | Some v \<Rightarrow> [encode_utf8 (to_csv L v)])"
    and "json_of (fst (run_steps (table_steps L d pat)))
     = (case shown_view L d pat of None \<Rightarrow> [] | Some v \<Rightarrow> [json_dumps d])"
    by simp_all
qed

lemma display_completed:
  fixes L :: "('c, 'p) library"
  assumes "ekatalog_data st = Some d" and "snd (display L st pat) = None"
  shows "snd (run_steps ((success_step st :: py_error + 'c element) # metrics_steps d)) = None
     \<and> snd (run_steps (table_steps L d pat)) = None"
  using assms(2) unfolding display_parts [OF assms(1)]
  by (auto split: option.splits)

subsection \<open>The exports and the filter\<close>

lemma escape_char_non_ascii:
  assumes "128 \<le> (of_char c :: nat)"
  shows "escape_char c = [c]"
proof -
  have "c \<noteq> CHR 0x5C" "c \<noteq> CHR 0x22" "c \<noteq> CHR 0x08" "c \<noteq> CHR 0x0C" "c \<noteq> CHR 0x0A"
    "c \<noteq> CHR 0x0D" "c \<noteq> CHR 0x09"
    using assms by auto
  moreover have "\<not> (of_char c :: nat) < 32" using assms by simp
  ultimately show ?thesis by (simp add: escape_char_def Let_def)
qed

lemma encode_basestring_non_ascii:
  "list_all (\<lambda>c. 128 \<le> (of_char c :: nat)) s \<Longrightarrow> concat (map escape_char s) = s"
  by (induction s) (simp_all add: escape_char_non_ascii)

lemma strip_append: "strip p (p @ r) = Some r"
  by (simp add: strip_def)

lemma strip_Cons: "strip (a # p) (c # s) = (if a = c then strip p s else None)"
  by (simp add: strip_def)

lemma strip_Nil: "strip [] s = Some s"
  by (simp add: strip_def)

lemma of_char_digit: "n < 10 \<Longrightarrow> (of_char (digit_char n) :: nat) = 48 + n"
  by (simp add: digit_char_def)

lemma is_digit_digit_char: "n < 10 \<Longrightarrow> is_digit (digit_char n)"
  by (simp add: is_digit_def of_char_digit)

lemma digit_val_digit_char: "n < 10 \<Longrightarrow> digit_val (digit_char n) = n"
  by (simp add: digit_val_def of_char_digit)

lemma nat_repr_digits: "list_all is_digit (nat_repr n)"
proof (induction n rule: nat_repr.induct)
  case (1 n)
  show ?case
  proof (cases "n < 10")
    case True
    then show ?thesis by (subst nat_repr.simps) (simp add: is_digit_digit_char)
  next
    case False
    then have "n mod 10 < 10" by simp
    with False show ?thesis using 1 by (subst nat_repr.simps) (simp add: is_digit_digit_char)
  qed
qed

lemma nat_repr_not_Nil: "nat_repr n \<noteq> []"
  by (subst nat_repr.simps) simp

lemma nat_repr_value: "foldl (\<lambda>a c. 10 * a + digit_val c) 0 (nat_repr n) = n"
proof (induction n rule: nat_repr.induct)
  case (1 n)
  show ?case
  proof (cases "n < 10")
    case True
    then show ?thesis by (subst nat_repr.simps) (simp add: digit_val_digit_char)
  next
    case False
    then show ?thesis using 1 by (subst nat_repr.simps) (simp add: digit_val_digit_char)
  qed
qed

lemma takeWhile_digits:
  "list_all is_digit ds \<Longrightarrow> takeWhile is_digit rest = [] \<Longrightarrow>
   takeWhile is_digit (ds @ rest) = ds \<and> dropWhile is_digit (ds @ rest) = rest"
  by (induction ds) (auto simp: takeWhile_eq_Nil_iff dropWhile_eq_self_iff)

lemma read_nat_nat_repr:
  "takeWhile is_digit rest = [] \<Longrightarrow> read_nat (nat_repr n @ rest) = Some (n, rest)"
  using takeWhile_digits [OF nat_repr_digits, of rest n]
  by (simp add: read_nat_def nat_repr_not_Nil nat_repr_value)

lemma minus_not_digit: "\<not> is_digit CHR ''-''"
  by (simp add: is_digit_def)

lemma nat_repr_hd: "\<exists>d ds. nat_repr n = d # ds \<and> is_digit d"
  using nat_repr_digits [of n] nat_repr_not_Nil [of n] by (cases "nat_repr n") simp_all

lemma read_int_int_repr:
  assumes "takeWhile is_digit rest = []"
  shows "read_int (int_repr i @ rest) = Some (i, rest) \<and> starts_int (int_repr i @ rest)"
proof (cases "i < 0")
  case True
  then show ?thesis
    by (simp add: read_int_def int_repr_def starts_int_def read_nat_nat_repr [OF assms])
next
  case False
  obtain d ds where r: "nat_repr (nat i) = d # ds" and d: "is_digit d"
    using nat_repr_hd by blast
  have "d \<noteq> CHR ''-''" using d minus_not_digit by auto
  moreover have "read_nat (d # ds @ rest) = Some (nat i, rest)"
    using read_nat_nat_repr [OF assms, of "nat i"] r by simp
  ultimately show ?thesis
    using False d by (simp add: read_int_def int_repr_def starts_int_def r)
qed

lemma hex_val_hex_char: "k < 16 \<Longrightarrow> hex_val (hex_char k) = k"
  by (simp add: hex_val_def hex_char_def)

lemma read_chars_plain:
  "c \<noteq> CHR 0x22 \<Longrightarrow> c \<noteq> CHR 0x5C \<Longrightarrow>
   read_chars (c # t) = (case read_chars t of None \<Rightarrow> None | Some (s, r) \<Rightarrow> Some (c # s, r))"
  by simp

lemma read_chars_simple_escape:
  "e \<noteq> CHR ''u'' \<Longrightarrow> unescape e = Some x \<Longrightarrow>
   read_chars (CHR 0x5C # e # t) = (case read_chars t of None \<Rightarrow> None | Some (s, r) \<Rightarrow> Some (x # s, r))"
  by simp

lemma read_chars_u_escape:
  "read_chars (CHR 0x5C # CHR ''u'' # CHR ''0'' # CHR ''0'' # h # l # t)
     = (case read_chars t of None \<Rightarrow> None
        | Some (s, r) \<Rightarrow> Some (char_of (16 * hex_val h + hex_val l) # s, r))"
  by simp

lemma read_chars_escape:
  "read_chars (escape_char c @ t) = (case read_chars t of None \<Rightarrow> None | Some (s, r) \<Rightarrow> Some (c # s, r))"
proof -
  consider (bs) "c = CHR 0x5C" | (q) "c = CHR 0x22" | (b) "c = CHR 0x08" | (f) "c = CHR 0x0C"
    | (n) "c = CHR 0x0A" | (r) "c = CHR 0x0D" | (t) "c = CHR 0x09"
    | (u) "c \<noteq> CHR 0x5C" "c \<noteq> CHR 0x22" "c \<noteq> CHR 0x08" "c \<noteq> CHR 0x0C" "c \<noteq> CHR 0x0A"
          "c \<noteq> CHR 0x0D" "c \<noteq> CHR 0x09" "(of_char c :: nat) < 32"
    | (p) "c \<noteq> CHR 0x5C" "c \<noteq> CHR 0x22" "c \<noteq> CHR 0x08" "c \<noteq> CHR 0x0C" "c \<noteq> CHR 0x0A"
          "c \<noteq> CHR 0x0D" "c \<noteq> CHR 0x09" "\<not> (of_char c :: nat) < 32"
    by blast
  then show ?thesis
  proof cases
    case bs
    show ?thesis
      unfolding bs using read_chars_simple_escape [of "CHR 0x5C" "CHR 0x5C" t]
      by (simp add: escape_char_def unescape_def)
  next
    case q
    show ?thesis
      unfolding q using read_chars_simple_escape [of "CHR 0x22" "CHR 0x22" t]
      by (simp add: escape_char_def unescape_def)
  next
    case b
    show ?thesis
      unfolding b using read_chars_simple_escape [of "CHR ''b''" "CHR 0x08" t]
      by (simp add: escape_char_def unescape_def)
  next
    case f
    show ?thesis
      unfolding f using read_chars_simple_escape [of "CHR ''f''" "CHR 0x0C" t]
      by (simp add: escape_char_def unescape_def)
  next
    case n
    show ?thesis
      unfolding n using read_chars_simple_escape [of "CHR ''n''" "CHR 0x0A" t]
      by (simp add: escape_char_def unescape_def)
  next
    case r
    show ?thesis
      unfolding r using read_chars_simple_escape [of "CHR ''r''" "CHR 0x0D" t]
      by (simp add: escape_char_def unescape_def)
  next
    case t
    show ?thesis
      unfolding t using read_chars_simple_escape [of "CHR ''t''" "CHR 0x09" t]
      by (simp add: escape_char_def unescape_def)
  next
    case u
    let ?n = "of_char c :: nat"
    have e: "escape_char c = [CHR 0x5C, CHR ''u'', CHR ''0'', CHR ''0'', hex_char (?n div 16), hex_char (?n mod 16)]"
      using u by (simp add: escape_char_def Let_def)
    have d: "?n div 16 < 16" using u(8) by simp
    have "16 * hex_val (hex_char (?n div 16)) + hex_val (hex_char (?n mod 16)) = ?n"
      by (simp add: hex_val_hex_char [OF d] hex_val_hex_char)
    then have k: "char_of (16 * hex_val (hex_char (?n div 16)) + hex_val (hex_char (?n mod 16))) = c"
      by simp
    show ?thesis
      by (simp only: e append.simps read_chars_u_escape k)
  next
    case p
    have "escape_char c = [c]" using p by (simp add: escape_char_def Let_def)
    then show ?thesis using read_chars_plain [OF p(2) p(1), of t] by simp
  qed
qed

lemma read_chars_escaped:
  "read_chars (concat (map escape_char s) @ CHR 0x22 # rest) = Some (s, rest)"
  by (induction s) (simp_all add: read_chars_escape del: read_chars.simps, simp)

lemma read_string_encode_basestring:
  "read_string (encode_basestring s @ rest) = Some (s, rest)"
  using read_chars_escaped [of s rest] by (simp add: read_string_def encode_basestring_def)

lemma strip_append_same: "strip (p @ q) (p @ s) = strip q s"
  by (simp add: strip_def)

lemma fuel_of_pos: "0 < fuel_of d"
  by (cases d) simp_all

lemma no_digit_newline: "takeWhile is_digit (newline_indent j @ r) = []"
  by (simp add: newline_indent_def is_digit_def)

lemma no_digit_comma: "takeWhile is_digit ('','' @ r) = []"
  by (simp add: is_digit_def)

lemma strip_comma_newline: "strip (CHR '','' # newline_indent k) (newline_indent j @ r) = None"
  by (simp add: newline_indent_def strip_Cons)

lemma rv_null: "read_value (Suc m) level (''null'' @ rest) = Some (JNull, rest)"
  by (simp add: starts_int_def is_digit_def strip_Cons strip_Nil)

lemma rv_true: "read_value (Suc m) level (''true'' @ rest) = Some (JBool True, rest)"
  by (simp add: starts_int_def is_digit_def strip_Cons strip_Nil)

lemma rv_false: "read_value (Suc m) level (''false'' @ rest) = Some (JBool False, rest)"
  by (simp add: starts_int_def is_digit_def strip_Cons strip_Nil)

lemma rv_int:
  "takeWhile is_digit rest = [] \<Longrightarrow> read_value (Suc m) level (int_repr i @ rest) = Some (JInt i, rest)"
  by (simp add: read_int_int_repr)

lemma rv_str: "read_value (Suc m) level (encode_basestring s @ rest) = Some (JStr s, rest)"
proof -
  define t where "t = concat (map escape_char s) @ CHR 0x22 # rest"
  have e: "encode_basestring s @ rest = CHR 0x22 # t"
    by (simp add: encode_basestring_def t_def)
  have rs: "read_string (CHR 0x22 # t) = Some (s, rest)"
    using read_string_encode_basestring [of s rest] by (simp only: e)
  show ?thesis
    unfolding e
    by (simp add: starts_int_def is_digit_def strip_Cons newline_indent_def rs
          del: replicate.simps)
qed

lemma rv_empty_arr: "read_value (Suc m) level (''[]'' @ rest) = Some (JArr [], rest)"
  by (simp add: starts_int_def is_digit_def strip_Cons strip_Nil)

lemma rv_empty_obj: "read_value (Suc m) level (''{}'' @ rest) = Some (JObj [], rest)"
  by (simp add: starts_int_def is_digit_def strip_Cons strip_Nil)

lemma rv_arr:
  assumes "read_items m (Suc level) body = Some (xs, newline_indent level @ '']'' @ rest)"
  shows "read_value (Suc m) level (''['' @ newline_indent (Suc level) @ body) = Some (JArr xs, rest)"
proof -
  have a: "strip (''['' @ newline_indent (Suc level)) (''['' @ newline_indent (Suc level) @ body) = Some body"
    using strip_append [of "''['' @ newline_indent (Suc level)" body] by simp
  have b: "strip (newline_indent level @ '']'') (newline_indent level @ '']'' @ rest) = Some rest"
    using strip_append [of "newline_indent level @ '']''" rest] by simp
  have c: "''['' @ newline_indent (Suc level) @ body = CHR ''['' # CHR 0x0A # (replicate (2 * Suc level) CHR '' '' @ body)"
    by (simp add: newline_indent_def del: replicate.simps)
  have n: "\<not> starts_int (''['' @ newline_indent (Suc level) @ body)"
    "strip ''null'' (''['' @ newline_indent (Suc level) @ body) = None"
    "strip ''true'' (''['' @ newline_indent (Suc level) @ body) = None"
    "strip ''false'' (''['' @ newline_indent (Suc level) @ body) = None"
    "strip ''[]'' (''['' @ newline_indent (Suc level) @ body) = None"
    "strip ''{}'' (''['' @ newline_indent (Suc level) @ body) = None"
    unfolding c by (simp_all add: starts_int_def is_digit_def strip_Cons)
  show ?thesis
    by (simp only: read_value.simps n a b assms if_False option.case prod.case)
qed

lemma rv_obj:
  assumes "read_members m (Suc level) body = Some (kvs, newline_indent level @ ''}'' @ rest)"
  shows "read_value (Suc m) level (''{'' @ newline_indent (Suc level) @ body) = Some (JObj kvs, rest)"
proof -
  have a: "strip (''{'' @ newline_indent (Suc level)) (''{'' @ newline_indent (Suc level) @ body) = Some body"
    using strip_append [of "''{'' @ newline_indent (Suc level)" body] by simp
  have b: "strip (newline_indent level @ ''}'') (newline_indent level @ ''}'' @ rest) = Some rest"
    using strip_append [of "newline_indent level @ ''}''" rest] by simp
  have c: "''{'' @ newline_indent (Suc level) @ body = CHR ''{'' # CHR 0x0A # (replicate (2 * Suc level) CHR '' '' @ body)"
    by (simp add: newline_indent_def del: replicate.simps)
  have c': "''['' @ newline_indent (Suc level) = CHR ''['' # newline_indent (Suc level)" by simp
  have n: "\<not> starts_int (''{'' @ newline_indent (Suc level) @ body)"
    "strip ''null'' (''{'' @ newline_indent (Suc level) @ body) = None"
    "strip ''true'' (''{'' @ newline_indent (Suc level) @ body) = None"
    "strip ''false'' (''{'' @ newline_indent (Suc level) @ body) = None"
    "strip ''[]'' (''{'' @ newline_indent (Suc level) @ body) = None"
    "strip ''{}'' (''{'' @ newline_indent (Suc level) @ body) = None"
    "strip (''['' @ newline_indent (Suc level)) (''{'' @ newline_indent (Suc level) @ body) = None"
    unfolding c c' by (simp_all add: starts_int_def is_digit_def strip_Cons)
  show ?thesis
    by (simp only: read_value.simps n a b assms if_False option.case prod.case)
qed

lemma read_items_join:
  assumes "\<And>x n level rest. x \<in> set xs \<Longrightarrow> fuel_of x \<le> n \<Longrightarrow> takeWhile is_digit rest = [] \<Longrightarrow>
             read_value n level (iterencode x level @ rest) = Some (x, rest)"
    and "xs \<noteq> []" and "length xs + sum_list (map fuel_of xs) \<le> n"
  shows "read_items n k (join_with ('','' @ newline_indent k) (map (\<lambda>x. iterencode x k) xs)
            @ newline_indent j @ r) = Some (xs, newline_indent j @ r)"
  using assms
proof (induction xs arbitrary: n)
  case Nil
  then show ?case by simp
next
  case (Cons x xs)
  from Cons.prems(3) obtain m where n: "n = Suc m" and m: "fuel_of x \<le> m"
    and m': "length xs + sum_list (map fuel_of xs) \<le> m"
    by (cases n) simp_all
  show ?case
  proof (cases xs)
    case Nil
    have v: "read_value m k (iterencode x k @ newline_indent j @ r) = Some (x, newline_indent j @ r)"
      using Cons.prems(1) [of x m "newline_indent j @ r" k] m no_digit_newline by simp
    show ?thesis
      by (simp add: Nil n v strip_comma_newline del: read_value.simps)
  next
    case (Cons y ys)
    let ?tail = "join_with ('','' @ newline_indent k) (map (\<lambda>x. iterencode x k) (y # ys)) @ newline_indent j @ r"
    have v: "read_value m k (iterencode x k @ ('','' @ newline_indent k) @ ?tail)
        = Some (x, ('','' @ newline_indent k) @ ?tail)"
      using Cons.prems(1) [of x m "('','' @ newline_indent k) @ ?tail" k] m no_digit_comma by simp
    have ne: "xs \<noteq> []" using Cons by simp
    have ih': "\<And>x n level rest. x \<in> set xs \<Longrightarrow> fuel_of x \<le> n \<Longrightarrow>
        takeWhile is_digit rest = [] \<Longrightarrow>
        read_value n level (iterencode x level @ rest) = Some (x, rest)"
    proof -
      fix x n level rest
      assume "x \<in> set xs" and "fuel_of x \<le> n" and "takeWhile is_digit rest = []"
      then show "read_value n level (iterencode x level @ rest) = Some (x, rest)"
        using Cons.prems(1) [of x n rest level] by simp
    qed
    have t: "read_items m k ?tail = Some (y # ys, newline_indent j @ r)"
      using Cons.IH [OF ih' ne m'] by (simp only: Cons)
    have s: "strip ('','' @ newline_indent k) (('','' @ newline_indent k) @ ?tail) = Some ?tail"
      by (rule strip_append)
    have "read_items (Suc m) k (iterencode x k @ ('','' @ newline_indent k) @ ?tail)
        = Some (x # y # ys, newline_indent j @ r)"
      by (simp only: read_items.simps v s t option.case prod.case)
    then show ?thesis by (simp add: Cons n del: read_items.simps read_value.simps)
  qed
qed

lemma read_members_join:
  assumes "\<And>key v n level rest. (key, v) \<in> set kvs \<Longrightarrow> fuel_of v \<le> n \<Longrightarrow>
             takeWhile is_digit rest = [] \<Longrightarrow>
             read_value n level (iterencode v level @ rest) = Some (v, rest)"
    and "kvs \<noteq> []" and "length kvs + sum_list (map (\<lambda>kv. fuel_of (snd kv)) kvs) \<le> n"
  shows "read_members n k
           (join_with ('','' @ newline_indent k)
              (map (\<lambda>kv. encode_basestring (fst kv) @ '': '' @ iterencode (snd kv) k) kvs)
            @ newline_indent j @ r) = Some (kvs, newline_indent j @ r)"
  using assms
proof (induction kvs arbitrary: n)
  case Nil
  then show ?case by simp
next
  case (Cons kv kvs)
  obtain key v where kv: "kv = (key, v)" by (cases kv)
  from Cons.prems(3) obtain m where n: "n = Suc m" and m: "fuel_of v \<le> m"
    and m': "length kvs + sum_list (map (\<lambda>kv. fuel_of (snd kv)) kvs) \<le> m"
    by (cases n) (simp_all add: kv)
  have key: "\<And>t. read_string (encode_basestring key @ '': '' @ t) = Some (key, '': '' @ t)"
    by (rule read_string_encode_basestring)
  have colon: "\<And>t. strip '': '' ('': '' @ t) = Some t" by (rule strip_append)
  show ?case
  proof (cases kvs)
    case Nil
    have v: "read_value m k (iterencode v k @ newline_indent j @ r) = Some (v, newline_indent j @ r)"
      using Cons.prems(1) [of key v m "newline_indent j @ r" k] m no_digit_newline by (simp add: kv)
    have s: "strip ('','' @ newline_indent k) (newline_indent j @ r) = None"
      using strip_comma_newline [of k j r] by simp
    have "read_members (Suc m) k (encode_basestring key @ '': '' @ iterencode v k @ newline_indent j @ r)
        = Some ([(key, v)], newline_indent j @ r)"
      by (simp only: read_members.simps key colon v s option.case prod.case)
    then show ?thesis by (simp add: Nil n kv del: read_members.simps read_value.simps)
  next
    case (Cons kv' kvs')
    let ?tail = "join_with ('','' @ newline_indent k)
        (map (\<lambda>kv. encode_basestring (fst kv) @ '': '' @ iterencode (snd kv) k) (kv' # kvs'))
        @ newline_indent j @ r"
    have v: "read_value m k (iterencode v k @ ('','' @ newline_indent k) @ ?tail)
        = Some (v, ('','' @ newline_indent k) @ ?tail)"
      using Cons.prems(1) [of key v m "('','' @ newline_indent k) @ ?tail" k] m no_digit_comma
      by (simp add: kv)
    have ne: "kvs \<noteq> []" using Cons by simp
    have ih': "\<And>key v n level rest. (key, v) \<in> set kvs \<Longrightarrow> fuel_of v \<le> n \<Longrightarrow>
        takeWhile is_digit rest = [] \<Longrightarrow>
        read_value n level (iterencode v level @ rest) = Some (v, rest)"
    proof -
      fix key v n level rest
      assume "(key, v) \<in> set kvs" and "fuel_of v \<le> n" and "takeWhile is_digit rest = []"
      then show "read_value n level (iterencode v level @ rest) = Some (v, rest)"
        using Cons.prems(1) [of key v n rest level] by simp
    qed
    have t: "read_members m k ?tail = Some (kv' # kvs', newline_indent j @ r)"
      using Cons.IH [OF ih' ne m'] by (simp only: Cons)
    have s: "strip ('','' @ newline_indent k) (('','' @ newline_indent k) @ ?tail) = Some ?tail"
      by (rule strip_append)
    have "read_members (Suc m) k
        (encode_basestring key @ '': '' @ iterencode v k @ ('','' @ newline_indent k) @ ?tail)
        = Some ((key, v) # kv' # kvs', newline_indent j @ r)"
      by (simp only: read_members.simps key colon v s t option.case prod.case)
    then show ?thesis by (simp add: Cons n kv del: read_members.simps read_value.simps)
  qed
qed

lemma read_value_iterencode:
  "fuel_of d \<le> n \<Longrightarrow> takeWhile is_digit rest = [] \<Longrightarrow>
   read_value n level (iterencode d level @ rest) = Some (d, rest)"
proof (induction d arbitrary: n level rest)
  case JNull
  then obtain m where "n = Suc m" by (cases n) simp_all
  then show ?case by (simp only: iterencode.simps rv_null)
next
  case (JBool b)
  then obtain m where "n = Suc m" by (cases n) simp_all
  then show ?case by (cases b) (simp_all only: iterencode.simps rv_true rv_false if_True if_False)
next
  case (JInt i)
  then obtain m where "n = Suc m" by (cases n) simp_all
  then show ?case using rv_int [OF JInt.prems(2)] by (simp only: iterencode.simps)
next
  case (JStr s)
  then obtain m where "n = Suc m" by (cases n) simp_all
  then show ?case by (simp only: iterencode.simps rv_str)
next
  case (JArr xs)
  from JArr.prems(1) obtain m where n: "n = Suc m"
    and m: "length xs + sum_list (map fuel_of xs) \<le> m" by (cases n) simp_all
  show ?case
  proof (cases "xs = []")
    case True
    then show ?thesis by (simp only: n iterencode.simps rv_empty_arr if_True refl)
  next
    case False
    have ih: "\<And>x n level rest. x \<in> set xs \<Longrightarrow> fuel_of x \<le> n \<Longrightarrow> takeWhile is_digit rest = [] \<Longrightarrow>
        read_value n level (iterencode x level @ rest) = Some (x, rest)"
      using JArr.IH by blast
    let ?body = "join_with ('','' @ newline_indent (Suc level)) (map (\<lambda>x. iterencode x (Suc level)) xs)
        @ newline_indent level @ '']'' @ rest"
    have "read_items m (Suc level) ?body = Some (xs, newline_indent level @ '']'' @ rest)"
      by (rule read_items_join [OF ih False m])
    from rv_arr [OF this]
    have "read_value (Suc m) level (''['' @ newline_indent (Suc level) @ ?body) = Some (JArr xs, rest)" .
    moreover have "iterencode (JArr xs) level @ rest = ''['' @ newline_indent (Suc level) @ ?body"
      using False by (simp add: comp_def)
    ultimately show ?thesis by (simp only: n)
  qed
next
  case (JObj kvs)
  have f: "map snd (map (map_prod id fuel_of) kvs) = map (\<lambda>kv. fuel_of (snd kv)) kvs"
    by (induction kvs) auto
  from JObj.prems(1) obtain m where n: "n = Suc m"
    and m: "length kvs + sum_list (map (\<lambda>kv. fuel_of (snd kv)) kvs) \<le> m"
    by (cases n) (simp_all add: f del: map_map)
  show ?case
  proof (cases "kvs = []")
    case True
    then show ?thesis by (simp only: n iterencode.simps rv_empty_obj if_True refl)
  next
    case False
    have ih: "\<And>key v n level rest. (key, v) \<in> set kvs \<Longrightarrow> fuel_of v \<le> n \<Longrightarrow>
        takeWhile is_digit rest = [] \<Longrightarrow>
        read_value n level (iterencode v level @ rest) = Some (v, rest)"
    proof -
      fix key v n level rest
      assume "(key, v) \<in> set kvs" and "fuel_of v \<le> n" and "takeWhile is_digit rest = []"
      then show "read_value n level (iterencode v level @ rest) = Some (v, rest)"
        using JObj.IH [of "(key, v)" v n rest level] by simp
    qed
    let ?body = "join_with ('','' @ newline_indent (Suc level))
        (map (\<lambda>kv. encode_basestring (fst kv) @ '': '' @ iterencode (snd kv) (Suc level)) kvs)
        @ newline_indent level @ ''}'' @ rest"
    have "read_members m (Suc level) ?body = Some (kvs, newline_indent level @ ''}'' @ rest)"
      by (rule read_members_join [OF ih False m])
    from rv_obj [OF this]
    have "read_value (Suc m) level (''{'' @ newline_indent (Suc level) @ ?body) = Some (JObj kvs, rest)" .
    moreover have "iterencode (JObj kvs) level @ rest = ''{'' @ newline_indent (Suc level) @ ?body"
      using False by (simp add: comp_def case_prod_beta)
    ultimately show ?thesis by (simp only: n)
  qed
qed

lemma read_value_json_dumps: "fuel_of d \<le> n \<Longrightarrow> read_value n 0 (json_dumps d) = Some (d, [])"
  using read_value_iterencode [of d n "[]" 0] by (simp add: json_dumps_def)

lemma json_of_display:
  fixes L :: "('c, 'p) library"
  assumes "ekatalog_data st = Some d"
  shows "json_of (fst (display L st pat)) = [] \<or> json_of (fst (display L st pat)) = [json_dumps d]"
  by (simp add: display_table_projections(3) [OF assms] table_projections(3) split: option.splits)

text \<open>
  Claim C9: for every stored response and every search text, the JSON download, when
  the page has one, holds the serialization of the whole stored response and nothing
  else, so its content is the same for every search text; the page has it whenever the
  run completes and \<^verbatim>\<open>data\<close> is present and true. The serialization is the one of
  \<^verbatim>\<open>json.dumps\<close> with \<^verbatim>\<open>indent=2\<close> and \<^verbatim>\<open>ensure_ascii=False\<close>: a text of
  characters from 128 on is written between its quotes as it is. The download holds the
  full response, pretty-printed: the reader of the layout with two spaces a level, one
  item a line, gets from it the stored response, every key, element, number and
  character of it in place, and nothing is left over; so it does from the serialization
  of any value.
\<close>

theorem C9_json_export_is_full_response:
  fixes L :: "('c, 'p) library"
  assumes "ekatalog_data st = Some d"
  shows "(json_of (fst (display L st pat)) = [] \<or> json_of (fst (display L st pat)) = [json_dumps d])
     \<and> (\<forall>kvs data. snd (display L st pat) = None \<and> d = JObj kvs \<and> map_of kvs ''data'' = Some data
           \<and> truthy data \<longrightarrow> json_of (fst (display L st pat)) = [json_dumps d])
     \<and> (\<forall>q. json_of (fst (display L st q)) \<noteq> [] \<and> json_of (fst (display L st pat)) \<noteq> []
           \<longrightarrow> json_of (fst (display L st q)) = json_of (fst (display L st pat)))
     \<and> (\<forall>s. list_all (\<lambda>c. 128 \<le> (of_char c :: nat)) s
           \<longrightarrow> json_dumps (JStr s) = [CHR 0x22] @ s @ [CHR 0x22])
     \<and> (\<forall>n. fuel_of d \<le> n \<longrightarrow>
           list_all (\<lambda>t. read_value n 0 t = Some (d, [])) (json_of (fst (display L st pat))))
     \<and> (\<forall>e n. fuel_of e \<le> n \<longrightarrow> read_value n 0 (json_dumps e) = Some (e, []))"
proof (intro conjI allI impI)
  show "json_of (fst (display L st pat)) = [] \<or> json_of (fst (display L st pat)) = [json_dumps d]"
    by (rule json_of_display [OF assms])
next
  fix kvs data
  assume a: "snd (display L st pat) = None \<and> d = JObj kvs \<and> map_of kvs ''data'' = Some data
     \<and> truthy data"
  from display_completed [OF assms, of L pat] a
  have h: "snd (run_steps ((success_step st :: py_error + 'c element) # metrics_steps d)) = None"
    and t: "snd (run_steps (table_steps L (JObj kvs) pat)) = None" by simp_all
  from table_steps_completed [OF t] a have "shown_view L d pat \<noteq> None" by simp
  then show "json_of (fst (display L st pat)) = [json_dumps d]"
    by (auto simp: display_table_projections(3) [OF assms] table_projections(3) h)
next
  fix q
  assume "json_of (fst (display L st q)) \<noteq> [] \<and> json_of (fst (display L st pat)) \<noteq> []"
  then show "json_of (fst (display L st q)) = json_of (fst (display L st pat))"
    using json_of_display [OF assms, of L q] json_of_display [OF assms, of L pat] by simp
next
  fix s :: string
  assume "list_all (\<lambda>c. 128 \<le> (of_char c :: nat)) s"
  then show "json_dumps (JStr s) = [CHR 0x22] @ s @ [CHR 0x22]"
    by (simp add: json_dumps_def encode_basestring_def encode_basestring_non_ascii)
next
  fix n
  assume "fuel_of d \<le> n"
  then have "read_value n 0 (json_dumps d) = Some (d, [])" by (rule read_value_json_dumps)
  then show "list_all (\<lambda>t. read_value n 0 t = Some (d, [])) (json_of (fst (display L st pat)))"
    using json_of_display [OF assms, of L pat] by auto
next
  fix e n
  assume "fuel_of e \<le> n"
  then show "read_value n 0 (json_dumps e) = Some (e, [])" by (rule read_value_json_dumps)
qed

text \<open>
  Claim C9 at a stored response of two records, the first with a field text of U+00E9,
  a quotation mark and a line feed, and of metadata with a negative number, a truth
  value, a null and an empty list, and at the search text \<^verbatim>\<open>zz\<close>, which no row
  matches: the table shown is empty, the JSON download is the whole response,
  pretty-printed in sixteen lines with two spaces a level, the character kept, the
  quotation mark and the line feed escaped, and reading it gives the response back.
\<close>

theorem C9_json_export_is_full_response_witness:
  "json_of (fst (display (text_library (\<lambda>rq. Refused ''down''))
      \<lparr>ekatalog_data = Some (JObj [(''data'', JArr [JObj [(''a'', JStr [CHR 0xE9, CHR 0x22, CHR 0x0A])], JObj [(''a'', JStr ''x'')]]),
            (''meta'', JObj [(''total'', JInt (- 12)), (''ok'', JBool True), (''next'', JNull), (''tags'', JArr [])])]),
       last_fetch = Some 7, is_archive = Some False\<rparr> ''zz''))
     = [json_dumps (JObj [(''data'', JArr [JObj [(''a'', JStr [CHR 0xE9, CHR 0x22, CHR 0x0A])], JObj [(''a'', JStr ''x'')]]),
            (''meta'', JObj [(''total'', JInt (- 12)), (''ok'', JBool True), (''next'', JNull), (''tags'', JArr [])])])]
   \<and> frames_of (fst (display (text_library (\<lambda>rq. Refused ''down''))
      \<lparr>ekatalog_data = Some (JObj [(''data'', JArr [JObj [(''a'', JStr [CHR 0xE9, CHR 0x22, CHR 0x0A])], JObj [(''a'', JStr ''x'')]]),
            (''meta'', JObj [(''total'', JInt (- 12)), (''ok'', JBool True), (''next'', JNull), (''tags'', JArr [])])]),
       last_fetch = Some 7, is_archive = Some False\<rparr> ''zz''))
     = [\<lparr>columns = [''a''], rows = []\<rparr>]
   \<and> text_lines (json_dumps (JObj [(''data'', JArr [JObj [(''a'', JStr [CHR 0xE9, CHR 0x22, CHR 0x0A])], JObj [(''a'', JStr ''x'')]]),
            (''meta'', JObj [(''total'', JInt (- 12)), (''ok'', JBool True), (''next'', JNull), (''tags'', JArr [])])]))
     = [''{'',
        ''  '' @ [CHR 0x22] @ ''data'' @ [CHR 0x22] @ '': ['',
        ''    {'',
        ''      '' @ [CHR 0x22] @ ''a'' @ [CHR 0x22] @ '': '' @ [CHR 0x22, CHR 0xE9, CHR 0x5C, CHR 0x22, CHR 0x5C] @ ''n'' @ [CHR 0x22],
        ''    },'',
        ''    {'',
        ''      '' @ [CHR 0x22] @ ''a'' @ [CHR 0x22] @ '': '' @ [CHR 0x22] @ ''x'' @ [CHR 0x22],
        ''    }'',
        ''  ],'',
        ''  '' @ [CHR 0x22] @ ''meta'' @ [CHR 0x22] @ '': {'',
        ''    '' @ [CHR 0x22] @ ''total'' @ [CHR 0x22] @ '': -12,'',
        ''    '' @ [CHR 0x22] @ ''ok'' @ [CHR 0x22] @ '': true,'',
        ''    '' @ [CHR 0x22] @ ''next'' @ [CHR 0x22] @ '': null,'',
        ''    '' @ [CHR 0x22] @ ''tags'' @ [CHR 0x22] @ '': []'',
        ''  }'',
        ''}'']
   \<and> json_dumps (JStr [CHR 0xE9]) = [CHR 0x22, CHR 0xE9, CHR 0x22]
   \<and> list_all (\<lambda>t. read_value 30 0 t = Some (JObj [(''data'', JArr [JObj [(''a'', JStr [CHR 0xE9, CHR 0x22, CHR 0x0A])], JObj [(''a'', JStr ''x'')]]),
            (''meta'', JObj [(''total'', JInt (- 12)), (''ok'', JBool True), (''next'', JNull), (''tags'', JArr [])])], []))
       (json_of (fst (display (text_library (\<lambda>rq. Refused ''down''))
      \<lparr>ekatalog_data = Some (JObj [(''data'', JArr [JObj [(''a'', JStr [CHR 0xE9, CHR 0x22, CHR 0x0A])], JObj [(''a'', JStr ''x'')]]),
            (''meta'', JObj [(''total'', JInt (- 12)), (''ok'', JBool True), (''next'', JNull), (''tags'', JArr [])])]),
       last_fetch = Some 7, is_archive = Some False\<rparr> ''zz'')))
   \<and> read_value 30 0 (json_dumps (JObj [(''data'', JArr [JObj [(''a'', JStr [CHR 0xE9, CHR 0x22, CHR 0x0A])], JObj [(''a'', JStr ''x'')]]),
            (''meta'', JObj [(''total'', JInt (- 12)), (''ok'', JBool True), (''next'', JNull), (''tags'', JArr [])])]))
     = Some (JObj [(''data'', JArr [JObj [(''a'', JStr [CHR 0xE9, CHR 0x22, CHR 0x0A])], JObj [(''a'', JStr ''x'')]]),
            (''meta'', JObj [(''total'', JInt (- 12)), (''ok'', JBool True), (''next'', JNull), (''tags'', JArr [])])], [])"
proof -
  let ?L = "text_library (\<lambda>rq. Refused ''down'')"
  let ?data = "JArr [JObj [(''a'', JStr [CHR 0xE9, CHR 0x22, CHR 0x0A])], JObj [(''a'', JStr ''x'')]]"
  let ?kvs = "[(''data'', ?data),
            (''meta'', JObj [(''total'', JInt (- 12)), (''ok'', JBool True), (''next'', JNull), (''tags'', JArr [])])]"
  let ?st = "\<lparr>ekatalog_data = Some (JObj ?kvs), last_fetch = Some 7, is_archive = Some False\<rparr>"
  have e: "ekatalog_data ?st = Some (JObj ?kvs)" by simp
  have c: "snd (display ?L ?st ''zz'') = None" by code_simp
  have m: "map_of ?kvs ''data'' = Some ?data"
    and t: "truthy ?data" by simp_all
  have n: "list_all (\<lambda>c. 128 \<le> (of_char c :: nat)) [CHR 0xE9]" by simp
  have f: "fuel_of (JObj ?kvs) \<le> 30" by simp
  note th = C9_json_export_is_full_response [OF e, of ?L "''zz''"]
  from th c m t have 1: "json_of (fst (display ?L ?st ''zz'')) = [json_dumps (JObj ?kvs)]" by blast
  from th n have "json_dumps (JStr [CHR 0xE9]) = [CHR 0x22] @ [CHR 0xE9] @ [CHR 0x22]" by blast
  then have 2: "json_dumps (JStr [CHR 0xE9]) = [CHR 0x22, CHR 0xE9, CHR 0x22]" by simp
  from th f have 3: "list_all (\<lambda>t. read_value 30 0 t = Some (JObj ?kvs, []))
       (json_of (fst (display ?L ?st ''zz'')))" by blast
  from th f have 4: "read_value 30 0 (json_dumps (JObj ?kvs)) = Some (JObj ?kvs, [])" by blast
  have 5: "frames_of (fst (display ?L ?st ''zz'')) = [\<lparr>columns = [''a''], rows = []\<rparr>]"
    by code_simp
  have 6: "text_lines (json_dumps (JObj ?kvs))
     = [''{'',
        ''  '' @ [CHR 0x22] @ ''data'' @ [CHR 0x22] @ '': ['',
        ''    {'',
        ''      '' @ [CHR 0x22] @ ''a'' @ [CHR 0x22] @ '': '' @ [CHR 0x22, CHR 0xE9, CHR 0x5C, CHR 0x22, CHR 0x5C] @ ''n'' @ [CHR 0x22],
        ''    },'',
        ''    {'',
        ''      '' @ [CHR 0x22] @ ''a'' @ [CHR 0x22] @ '': '' @ [CHR 0x22] @ ''x'' @ [CHR 0x22],
        ''    }'',
        ''  ],'',
        ''  '' @ [CHR 0x22] @ ''meta'' @ [CHR 0x22] @ '': {'',
        ''    '' @ [CHR 0x22] @ ''total'' @ [CHR 0x22] @ '': -12,'',
        ''    '' @ [CHR 0x22] @ ''ok'' @ [CHR 0x22] @ '': true,'',
        ''    '' @ [CHR 0x22] @ ''next'' @ [CHR 0x22] @ '': null,'',
        ''    '' @ [CHR 0x22] @ ''tags'' @ [CHR 0x22] @ '': []'',
        ''  }'',
        ''}'']"
    by code_simp
  from 1 5 6 2 3 4 show ?thesis by (intro conjI)
qed

lemma subseq_select: "subseq (map fst (filter snd (zip xs ks))) xs"
proof (induction xs arbitrary: ks)
  case Nil
  then show ?case by simp
next
  case (Cons x xs)
  show ?case
  proof (cases ks)
    case Nil
    then show ?thesis by simp
  next
    case (Cons k ks')
    then show ?thesis using Cons.IH [of ks'] by (cases k) (simp_all add: list_emb_Cons)
  qed
qed

lemma filter_block_empty: "filter_block L df [] = Inr (df, [])"
  by (simp add: filter_block_def)

lemma filter_block_subseq:
  assumes "filter_block L df pat = Inr (v, cnt)"
  shows "subseq (rows v) (rows df) \<and> columns v = columns df \<and> length (rows v) \<le> length (rows df)"
proof (cases "pat = []")
  case True
  then show ?thesis using assms by (simp add: filter_block_def)
next
  case False
  then obtain ks where "v = select_rows df ks"
    using assms by (auto simp: filter_block_def Let_def split: sum.splits)
  then have "subseq (rows v) (rows df) \<and> columns v = columns df"
    by (simp add: select_rows_def subseq_select)
  then show ?thesis using list_emb_length [of "(=)" "rows v" "rows df"] by simp
qed

lemma collect_map_Inr:
  "collect (map (\<lambda>(i, cells). Inr (g i cells)) xs) = Inr (map (\<lambda>(i, cells). g i cells) xs)"
  by (induction xs) auto

lemma search_mask_compiled:
  assumes "re_compile L pat = Inr rx" and "columns df \<noteq> []"
  shows "search_mask L df pat
     = Inr (map (\<lambda>(i, cells). list_ex (\<lambda>c. re_search L rx (astype_str L c)) cells) (rows df))"
  using assms by (simp add: search_mask_def collect_map_Inr)

lemma select_by_predicate: "map fst (filter snd (zip xs (map P xs))) = filter P xs"
  by (induction xs) simp_all

lemma filter_block_compiled:
  assumes "re_compile L pat = Inr rx" and "columns df \<noteq> []" and "pat \<noteq> []"
  shows "filter_block L df pat =
     Inr (df\<lparr>rows := filter (\<lambda>(i, cells). list_ex (\<lambda>c. re_search L rx (astype_str L c)) cells) (rows df)\<rparr>,
          [Write_count
             (length (filter (\<lambda>(i, cells). list_ex (\<lambda>c. re_search L rx (astype_str L c)) cells) (rows df)))
             (length (rows df))])"
  using assms(3)
  by (simp add: filter_block_def search_mask_compiled [OF assms(1,2)] select_rows_def
        select_by_predicate Let_def)

lemma shown_view_frame:
  assumes "map_of kvs ''data'' = Some data" and "DataFrame L data = Inr df"
  shows "shown_view L (JObj kvs) pat =
     (if truthy data then (case filter_block L df pat of Inl e \<Rightarrow> None | Inr r \<Rightarrow> Some (fst r))
      else None)"
  using assms by (simp add: shown_view_def split: sum.splits prod.splits)

lemma shown_view_subseq:
  assumes "map_of kvs ''data'' = Some data" and "DataFrame L data = Inr df"
    and "shown_view L (JObj kvs) pat = Some v"
  shows "subseq (rows v) (rows df) \<and> columns v = columns df"
proof (cases "filter_block L df pat")
  case (Inl e)
  then show ?thesis using assms(3) by (simp add: shown_view_frame [OF assms(1,2)] split: if_splits)
next
  case (Inr r)
  then have "r = (v, snd r)"
    using assms(3) by (simp add: shown_view_frame [OF assms(1,2)] prod_eq_iff split: if_splits)
  with Inr have "filter_block L df pat = Inr (v, snd r)" by simp
  from filter_block_subseq [OF this] show ?thesis by simp
qed


lemma filter_block_returns:
  fixes L :: "('c, 'p) library"
  assumes a: "re_compile L pat = Inr rx \<and> columns df \<noteq> []"
  shows "\<exists>v cnt. filter_block L df pat = Inr (v, cnt)"
  proof (cases "pat = []")
    case True
    then show ?thesis using filter_block_empty by blast
  next
    case False
    from a have c: "re_compile L pat = Inr rx" and n: "columns df \<noteq> []" by simp_all
    show ?thesis unfolding filter_block_compiled [OF c n False] by blast
  qed

lemma display_frames_subseq:
  fixes L :: "('c, 'p) library"
  assumes a: "ekatalog_data st = Some (JObj kvs) \<and> map_of kvs ''data'' = Some data
     \<and> DataFrame L data = Inr df"
  shows "list_all (\<lambda>v. subseq (rows v) (rows df) \<and> columns v = columns df)
             (frames_of (fst (display L st pat)))"
proof -
  from a have e: "ekatalog_data st = Some (JObj kvs)" and m: "map_of kvs ''data'' = Some data"
    and f: "DataFrame L data = Inr df" by simp_all
  show ?thesis
  proof (cases "shown_view L (JObj kvs) pat")
    case None
    then show ?thesis
      by (simp add: display_table_projections(1) [OF e] table_projections(1))
  next
    case (Some v)
    from shown_view_subseq [OF m f Some] Some show ?thesis
      by (simp add: display_table_projections(1) [OF e] table_projections(1))
  qed
qed

lemma display_frame_empty_search:
  fixes L :: "('c, 'p) library"
  assumes a: "ekatalog_data st = Some (JObj kvs) \<and> map_of kvs ''data'' = Some data
     \<and> DataFrame L data = Inr df"
    and b: "snd (display L st []) = None \<and> truthy data"
  shows "frames_of (fst (display L st [])) = [df]"
proof -
  from a have e: "ekatalog_data st = Some (JObj kvs)" by simp
  from display_completed [OF e, of L "[]"] b
  have h: "snd (run_steps ((success_step st :: py_error + 'c element) # metrics_steps (JObj kvs))) = None"
    by simp
  have "shown_view L (JObj kvs) [] = Some df"
    using a b by (simp add: shown_view_def filter_block_empty)
  then show "frames_of (fst (display L st [])) = [df]"
    by (simp add: display_table_projections(1) [OF e] table_projections(1) h)
qed

text \<open>
  Claim C10: for every frame and every search text, an empty search text gives the
  frame itself; a filtered view, when the filter returns one, has the columns of the
  original, its rows are a subsequence of the original rows in their order, the count
  of matched rows is at most the total, and with a search text the count line shows
  these two numbers; the filter returns a view whenever the pattern compiles (and the
  frame has a column). On the page, every frame displayed is such a subsequence of the
  frame built from \<^verbatim>\<open>data\<close>, and with an empty search text a completed run displays
  that frame itself.
\<close>

theorem C10_filtered_view_is_subsequence:
  fixes L :: "('c, 'p) library"
  shows "filter_block L df [] = Inr (df, [])
     \<and> (\<forall>v cnt. filter_block L df pat = Inr (v, cnt) \<longrightarrow>
           subseq (rows v) (rows df) \<and> columns v = columns df
           \<and> length (rows v) \<le> length (rows df)
           \<and> cnt = (if pat = [] then [] else [Write_count (length (rows v)) (length (rows df))]))
     \<and> (\<forall>rx. re_compile L pat = Inr rx \<and> columns df \<noteq> [] \<longrightarrow>
           (\<exists>v cnt. filter_block L df pat = Inr (v, cnt)))
     \<and> (\<forall>kvs data. ekatalog_data st = Some (JObj kvs) \<and> map_of kvs ''data'' = Some data
           \<and> DataFrame L data = Inr df \<longrightarrow>
           list_all (\<lambda>v. subseq (rows v) (rows df) \<and> columns v = columns df)
             (frames_of (fst (display L st pat)))
           \<and> (snd (display L st []) = None \<and> truthy data \<longrightarrow>
                frames_of (fst (display L st [])) = [df]))"
proof (intro conjI allI impI)
  show "filter_block L df [] = Inr (df, [])" by (rule filter_block_empty)
next
  fix v cnt assume a: "filter_block L df pat = Inr (v, cnt)"
  from filter_block_subseq [OF a] show "subseq (rows v) (rows df)" and "columns v = columns df"
    and "length (rows v) \<le> length (rows df)" by simp_all
  from filter_block_note [OF a]
  show "cnt = (if pat = [] then [] else [Write_count (length (rows v)) (length (rows df))])" .
next
  fix rx assume "re_compile L pat = Inr rx \<and> columns df \<noteq> []"
  then show "\<exists>v cnt. filter_block L df pat = Inr (v, cnt)" by (rule filter_block_returns)
next
  fix kvs data
  assume "ekatalog_data st = Some (JObj kvs) \<and> map_of kvs ''data'' = Some data
     \<and> DataFrame L data = Inr df"
  then show "list_all (\<lambda>v. subseq (rows v) (rows df) \<and> columns v = columns df)
             (frames_of (fst (display L st pat)))" by (rule display_frames_subseq)
next
  fix kvs data
  assume "ekatalog_data st = Some (JObj kvs) \<and> map_of kvs ''data'' = Some data
     \<and> DataFrame L data = Inr df"
    and "snd (display L st []) = None \<and> truthy data"
  then show "frames_of (fst (display L st [])) = [df]" by (rule display_frame_empty_search)
qed

text \<open>
  Claim C10 on the frame of two records: \<^verbatim>\<open>ba\<close> keeps both rows, \<^verbatim>\<open>qux\<close> keeps the
  second row with its label, and the empty text keeps the frame.
\<close>

theorem C10_filtered_view_is_subsequence_witness:
  "filter_block (text_library (\<lambda>rq. Refused ''down''))
     \<lparr>columns = [''a'', ''b''], rows = [(0, [''Foo'', ''Bar'']), (1, [''Baz'', ''Qux''])]\<rparr> ''ba''
     = Inr (\<lparr>columns = [''a'', ''b''], rows = [(0, [''Foo'', ''Bar'']), (1, [''Baz'', ''Qux''])]\<rparr>,
            [Write_count 2 2])
   \<and> filter_block (text_library (\<lambda>rq. Refused ''down''))
     \<lparr>columns = [''a'', ''b''], rows = [(0, [''Foo'', ''Bar'']), (1, [''Baz'', ''Qux''])]\<rparr> ''qux''
     = Inr (\<lparr>columns = [''a'', ''b''], rows = [(1, [''Baz'', ''Qux''])]\<rparr>, [Write_count 1 2])
   \<and> subseq [(1 :: nat, [''Baz'', ''Qux''])] [(0, [''Foo'', ''Bar'']), (1, [''Baz'', ''Qux''])]
   \<and> filter_block (text_library (\<lambda>rq. Refused ''down''))
     \<lparr>columns = [''a'', ''b''], rows = [(0, [''Foo'', ''Bar'']), (1, [''Baz'', ''Qux''])]\<rparr> []
     = Inr (\<lparr>columns = [''a'', ''b''], rows = [(0, [''Foo'', ''Bar'']), (1, [''Baz'', ''Qux''])]\<rparr>, [])"
proof -
  let ?L = "text_library (\<lambda>rq. Refused ''down'')"
  let ?df = "\<lparr>columns = [''a'', ''b''], rows = [(0 :: nat, [''Foo'', ''Bar'']), (1, [''Baz'', ''Qux''])]\<rparr>"
  let ?v = "\<lparr>columns = [''a'', ''b''], rows = [(1 :: nat, [''Baz'', ''Qux''])]\<rparr>"
  have a: "filter_block ?L ?df ''ba'' = Inr (?df, [Write_count 2 2])" by code_simp
  have b: "filter_block ?L ?df ''qux'' = Inr (?v, [Write_count 1 2])" by code_simp
  from C10_filtered_view_is_subsequence [of ?L ?df "''qux''" "\<lparr>ekatalog_data = None, last_fetch = None, is_archive = None\<rparr>"] b
  have "subseq (rows ?v) (rows ?df)" and "filter_block ?L ?df [] = Inr (?df, [])" by blast+
  with a b show ?thesis by simp
qed

subsection \<open>The search text as a pattern\<close>

lemma compile_plain:
  "list_all re_ordinary pat \<Longrightarrow> compile_ignorecase pat = Inr (map (\<lambda>c. Lit (lower_char c)) pat)"
proof -
  assume a: "list_all re_ordinary pat"
  have d: "\<not> re_ordinary CHR ''.''" by (simp add: re_ordinary_def)
  from a have "list_all (\<lambda>c. re_ordinary c \<or> c = CHR ''.'') pat"
    by (induction pat) simp_all
  moreover from a d have "map (\<lambda>c. if c = CHR ''.'' then Dot else Lit (lower_char c)) pat
      = map (\<lambda>c. Lit (lower_char c)) pat"
    by (induction pat) auto
  ultimately show ?thesis by (simp add: compile_ignorecase_def)
qed

lemma match_here_literals:
  "match_here (map (\<lambda>c. Lit (lower_char c)) p) s = prefix (map lower_char p) (map lower_char s)"
proof (induction p arbitrary: s)
  case Nil
  then show ?case by simp
next
  case (Cons c p)
  then show ?case by (cases s) auto
qed

lemma search_atoms_literals:
  "search_atoms (map (\<lambda>c. Lit (lower_char c)) p) s = sublist (map lower_char p) (map lower_char s)"
proof (induction s)
  case Nil
  then show ?case by (cases p) simp_all
next
  case (Cons c s)
  then show ?case
    by (simp add: match_here_literals sublist_Cons_right del: match_here.simps)
qed

text \<open>
  What the filter does for a search text without special characters: for every frame
  with a column and every such text that is not empty, it keeps exactly the rows in
  which the text of at least one cell contains the search text as a case-insensitive
  substring, in their order, and the count line shows their number and the total; for
  the data of the two records Foo, Bar and Baz, Qux and the search text \<^verbatim>\<open>foo\<close>, the
  frame displayed is exactly the first record.
\<close>

lemma plain_search_keeps_matching_rows:
  fixes L :: "('c, atom list) library"
  assumes "re_compile L = compile_ignorecase" and "re_search L = search_atoms"
    and "pat \<noteq> []" and "list_all re_ordinary pat" and "columns df \<noteq> []"
  shows "filter_block L df pat =
       Inr (df\<lparr>rows := filter (\<lambda>(i, cells). list_ex (\<lambda>c. contains_ci pat (astype_str L c)) cells)
                          (rows df)\<rparr>,
            [Write_count
               (length (filter (\<lambda>(i, cells). list_ex (\<lambda>c. contains_ci pat (astype_str L c)) cells)
                          (rows df)))
               (length (rows df))])
     \<and> frames_of (fst (display (text_library network)
          \<lparr>ekatalog_data = Some (JObj [(''data'',
              JArr [JObj [(''a'', JStr ''Foo''), (''b'', JStr ''Bar'')],
                    JObj [(''a'', JStr ''Baz''), (''b'', JStr ''Qux'')]])]),
           last_fetch = Some t, is_archive = Some False\<rparr> ''foo''))
       = [\<lparr>columns = [''a'', ''b''], rows = [(0, [''Foo'', ''Bar''])]\<rparr>]"
proof
  have c: "re_compile L pat = Inr (map (\<lambda>c. Lit (lower_char c)) pat)"
    using assms(1,4) by (simp add: compile_plain)
  show "filter_block L df pat =
       Inr (df\<lparr>rows := filter (\<lambda>(i, cells). list_ex (\<lambda>c. contains_ci pat (astype_str L c)) cells)
                          (rows df)\<rparr>,
            [Write_count
               (length (filter (\<lambda>(i, cells). list_ex (\<lambda>c. contains_ci pat (astype_str L c)) cells)
                          (rows df)))
               (length (rows df))])"
    unfolding filter_block_compiled [OF c assms(5,3)]
    by (simp add: assms(2) search_atoms_literals contains_ci_def)
next
  show "frames_of (fst (display (text_library network)
          \<lparr>ekatalog_data = Some (JObj [(''data'',
              JArr [JObj [(''a'', JStr ''Foo''), (''b'', JStr ''Bar'')],
                    JObj [(''a'', JStr ''Baz''), (''b'', JStr ''Qux'')]])]),
           last_fetch = Some t, is_archive = Some False\<rparr> ''foo''))
       = [\<lparr>columns = [''a'', ''b''], rows = [(0, [''Foo'', ''Bar''])]\<rparr>]"
    by code_simp
qed

text \<open>
  Claim C3 (the filter keeps exactly the records of which one field contains the
  search text as a case-insensitive substring) fails on the code: the search text is
  handed to \<^verbatim>\<open>str.contains\<close> unescaped and is read as a pattern. With the one record
  whose field is \<^verbatim>\<open>Foo\<close> and the search text of a single dot, no field contains the
  dot as a substring, yet the row is kept and displayed, and the count line reads 1 of
  1, because the dot matches any character.
\<close>

theorem C3_dot_keeps_row_without_dot:
  "''.'' \<noteq> [] \<and> \<not> contains_ci ''.'' ''Foo''
   \<and> frames_of (fst (display (text_library (\<lambda>rq. Refused ''down''))
          \<lparr>ekatalog_data = Some (JObj [(''data'', JArr [JObj [(''a'', JStr ''Foo'')]])]),
           last_fetch = Some 7, is_archive = Some False\<rparr> ''.''))
       = [\<lparr>columns = [''a''], rows = [(0, [''Foo''])]\<rparr>]
   \<and> filter_block (text_library (\<lambda>rq. Refused ''down''))
         \<lparr>columns = [''a''], rows = [(0, [''Foo''])]\<rparr> ''.''
       = Inr (\<lparr>columns = [''a''], rows = [(0, [''Foo''])]\<rparr>, [Write_count 1 1])"
  by code_simp

subsection \<open>The lines of the CSV export\<close>

lemma line_count_append: "line_count (a @ b) = line_count a + line_count b"
  by (simp add: line_count_def)

lemma line_count_concat: "line_count (concat xs) = sum_list (map line_count xs)"
  by (induction xs) (simp_all add: line_count_append, simp add: line_count_def)

lemma line_count_doubled:
  "line_count (concat (map (\<lambda>c. if c = CHR 0x22 then [c, c] else [c]) f)) = line_count f"
  by (induction f) (simp_all add: line_count_def)

lemma line_count_csv_field: "line_count (csv_field lt q only f) = line_count f"
proof -
  have "line_count ([CHR 0x22] @ concat (map (\<lambda>c. if c = CHR 0x22 then [c, c] else [c]) f) @ [CHR 0x22])
      = line_count f"
    unfolding line_count_append line_count_doubled by (simp add: line_count_def)
  then show ?thesis by (simp add: csv_field_def)
qed

lemma line_count_join_with:
  "line_count sep = 0 \<Longrightarrow> line_count (join_with sep xs) = sum_list (map line_count xs)"
  by (induction sep xs rule: join_with.induct) (simp_all add: line_count_append, simp add: line_count_def)

lemma line_count_csv_line: "line_count (csv_line lt q fs) = sum_list (map line_count fs)"
proof -
  have c: "line_count '','' = 0" by (simp add: line_count_def)
  have "map line_count (map (csv_field lt q (length fs = 1)) fs) = map line_count fs"
    by (simp add: line_count_csv_field)
  then show ?thesis
    by (simp add: csv_line_def line_count_join_with [OF c] del: map_map)
qed

lemma no_line_feed: "(line_count s = 0) = (CHR 0x0A \<notin> set s)"
  by (induction s) (simp_all add: line_count_def)

lemma text_lines_line:
  "CHR 0x0A \<notin> set l \<Longrightarrow> text_lines (l @ CHR 0x0A # r) = l # text_lines r"
  by (induction l) auto

lemma text_lines_records:
  "list_all (\<lambda>x. CHR 0x0A \<notin> set (f x)) xs \<Longrightarrow>
   text_lines (concat (map (\<lambda>x. f x @ [CHR 0x0A]) xs)) = map f xs"
  by (induction xs) (simp_all add: text_lines_line)

lemma text_lines_prepend:
  "CHR 0x0A \<notin> set u \<Longrightarrow> u \<noteq> [] \<Longrightarrow>
   text_lines (u @ t) = (case text_lines t of [] \<Rightarrow> [u] | l # ls \<Rightarrow> (u @ l) # ls)"
proof (induction u)
  case Nil
  then show ?case by simp
next
  case (Cons c u)
  show ?case
  proof (cases "u = []")
    case True
    then show ?thesis using Cons.prems by (auto split: list.splits)
  next
    case False
    then show ?thesis using Cons by (auto split: list.splits)
  qed
qed

lemma line_count_Cons: "line_count (c # s) = line_count [c] + line_count s"
  by (simp add: line_count_def)

lemma char_of_high: "128 \<le> k \<Longrightarrow> k < 256 \<Longrightarrow> char_of (k :: nat) \<noteq> CHR 0x0A"
proof
  assume h: "128 \<le> k" "k < 256" and e: "char_of k = CHR 0x0A"
  have "(of_char (char_of k) :: nat) = k" using h by simp
  with e have "k = 10" by simp
  with h show False by simp
qed

lemma utf8_char_cases:
  "utf8_char c = [c] \<or>
   (c \<noteq> CHR 0x0A \<and> (\<exists>a b. utf8_char c = [a, b] \<and> a \<noteq> CHR 0x0A \<and> b \<noteq> CHR 0x0A))"
proof (cases "(of_char c :: nat) < 128")
  case True
  then show ?thesis by (simp add: utf8_char_def)
next
  case False
  have b: "(of_char c :: nat) < 256" by simp
  have d: "(of_char c :: nat) div 64 < 4"
    by (rule less_mult_imp_div_less) (use b in simp)
  have m: "(of_char c :: nat) mod 64 < 64" by simp
  have x: "char_of (192 + (of_char c :: nat) div 64) \<noteq> CHR 0x0A"
    using d by (intro char_of_high) simp_all
  have y: "char_of (128 + (of_char c :: nat) mod 64) \<noteq> CHR 0x0A"
    using m by (intro char_of_high) simp_all
  have z: "c \<noteq> CHR 0x0A" using False by auto
  have "utf8_char c = [char_of (192 + (of_char c :: nat) div 64), char_of (128 + (of_char c :: nat) mod 64)]"
    using False by (simp add: utf8_char_def Let_def)
  with x y z show ?thesis by blast
qed

lemma utf8_char_no_line_feed: "line_count (utf8_char c) = line_count [c]"
  using utf8_char_cases [of c] by (auto simp: line_count_def)

lemma utf8_char_line_feed: "utf8_char CHR 0x0A = [CHR 0x0A]"
  by (simp add: utf8_char_def)

lemma utf8_char_other:
  "c \<noteq> CHR 0x0A \<Longrightarrow> CHR 0x0A \<notin> set (utf8_char c) \<and> utf8_char c \<noteq> []"
  using utf8_char_cases [of c] by auto

lemma line_count_encode_utf8: "line_count (encode_utf8 s) = line_count s"
proof -
  have "sum_list (map (\<lambda>c. line_count (utf8_char c)) s) = line_count s"
  proof (induction s)
    case Nil
    then show ?case by (simp add: line_count_def)
  next
    case (Cons c s)
    then show ?case using line_count_Cons [of c s] by (simp add: utf8_char_no_line_feed)
  qed
  then show ?thesis by (simp add: encode_utf8_def line_count_concat comp_def)
qed

lemma encode_utf8_Cons: "encode_utf8 (c # s) = utf8_char c @ encode_utf8 s"
  by (simp add: encode_utf8_def)

lemma text_lines_encode_utf8: "text_lines (encode_utf8 s) = map encode_utf8 (text_lines s)"
proof (induction s)
  case Nil
  then show ?case by (simp add: encode_utf8_def)
next
  case (Cons c s)
  show ?case
  proof (cases "c = CHR 0x0A")
    case True
    then show ?thesis
      using Cons by (simp add: encode_utf8_Cons utf8_char_line_feed) (simp add: encode_utf8_def)
  next
    case False
    have u: "encode_utf8 [c] = utf8_char c" by (simp add: encode_utf8_def)
    have a: "encode_utf8 (c # l) = utf8_char c @ encode_utf8 l" for l by (rule encode_utf8_Cons)
    from utf8_char_other [OF False]
    have "text_lines (utf8_char c @ encode_utf8 s)
        = (case text_lines (encode_utf8 s) of [] \<Rightarrow> [utf8_char c] | l # ls \<Rightarrow> (utf8_char c @ l) # ls)"
      by (intro text_lines_prepend) simp_all
    then show ?thesis
      using False Cons by (cases "text_lines s") (simp_all add: encode_utf8_Cons u del: encode_utf8_Cons, simp_all add: a)
  qed
qed

lemma sum_list_rows:
  "sum_list (map (\<lambda>(i, cells). f cells + (k :: nat)) rs)
     = sum_list (map (\<lambda>(i, cells). f cells) rs) + length rs * k"
  by (induction rs) auto

lemma line_count_writerow:
  "line_count (writerow lt q fs) = sum_list (map line_count fs) + line_count lt"
  by (simp add: writerow_def line_count_append line_count_csv_line)

lemma line_count_to_csv:
  "line_count (to_csv L df) = (length (rows df) + 1) * line_count (linesep L) + inner_line_feeds L df"
proof -
  have "map line_count (map (\<lambda>(i, cells). writerow (linesep L) (quoted_breaks L) (map (csv_cell L) cells)) (rows df))
      = map (\<lambda>(i, cells). sum_list (map (\<lambda>c. line_count (csv_cell L c)) cells) + line_count (linesep L))
          (rows df)"
    by (auto simp: line_count_writerow comp_def)
  then show ?thesis
    by (simp add: to_csv_def line_count_append line_count_concat line_count_writerow
          inner_line_feeds_def sum_list_rows del: map_map)
qed

text \<open>The records of a frame as the writer gets them: the column names, then the cell texts of each row.\<close>

lemma to_csv_records:
  "to_csv L df = concat (map (writerow (linesep L) (quoted_breaks L))
      (columns df # map (\<lambda>(i, cells). map (csv_cell L) cells) (rows df)))"
  by (simp add: to_csv_def comp_def split_def)

lemma text_lines_to_csv:
  assumes "linesep L = pre @ [CHR 0x0A]" and "CHR 0x0A \<notin> set pre" and "inner_line_feeds L df = 0"
  shows "text_lines (to_csv L df)
     = map (\<lambda>fs. csv_line (linesep L) (quoted_breaks L) fs @ pre)
         (columns df # map (\<lambda>(i, cells). map (csv_cell L) cells) (rows df))"
proof -
  let ?recs = "columns df # map (\<lambda>(i, cells). map (csv_cell L) cells) (rows df)"
  let ?f = "\<lambda>fs. csv_line (linesep L) (quoted_breaks L) fs @ pre"
  have c: "sum_list (map line_count (columns df)) = 0"
    and r: "sum_list (map (\<lambda>(i, cells). sum_list (map (\<lambda>c. line_count (csv_cell L c)) cells)) (rows df)) = 0"
    using assms(3) by (simp_all add: inner_line_feeds_def)
  have "list_all (\<lambda>fs. sum_list (map line_count fs) = 0) ?recs"
    using c r by (auto simp: list_all_iff comp_def)
  then have "list_all (\<lambda>fs. CHR 0x0A \<notin> set (?f fs)) ?recs"
    using assms(2) by (simp add: list_all_iff no_line_feed [symmetric] line_count_csv_line
        del: set_append) (simp add: no_line_feed [symmetric] line_count_append line_count_csv_line)
  from text_lines_records [OF this]
  have "text_lines (concat (map (\<lambda>fs. ?f fs @ [CHR 0x0A]) ?recs)) = map ?f ?recs" .
  moreover have w: "writerow (linesep L) (quoted_breaks L) = (\<lambda>fs. ?f fs @ [CHR 0x0A])"
    by (rule ext) (simp add: writerow_def assms(1))
  ultimately show ?thesis by (simp only: to_csv_records w)
qed

lemma to_csv_ignores_labels:
  "to_csv L (df\<lparr>rows := map (\<lambda>(i, cells). (relabel i, cells)) (rows df)\<rparr>) = to_csv L df"
  by (simp add: to_csv_def comp_def split_def)

text \<open>
  With a writer that quotes no line break beyond those of the line terminator (Python
  3.11.2 is one) and the line terminator a line feed, a carriage return inside a field
  is written unquoted.
\<close>

lemma carriage_return_written_unquoted:
  "to_csv (text_library (\<lambda>rq. Refused ''down''))
      \<lparr>columns = [''a''], rows = [(0, [''x'' @ [CHR 0x0D] @ ''y''])]\<rparr>
     = ''a'' @ [CHR 0x0A] @ ''x'' @ [CHR 0x0D] @ ''y'' @ [CHR 0x0A]"
  by code_simp

lemma csv_of_display:
  fixes L :: "('c, 'p) library"
  assumes "ekatalog_data st = Some d"
  shows "csv_of (fst (display L st pat))
     = map (\<lambda>v. encode_utf8 (to_csv L v)) (frames_of (fst (display L st pat)))"
  by (simp add: display_table_projections(1,2) [OF assms] table_projections(1,2)
        split: option.splits)

text \<open>
  Claim C8, as amended: for every frame of N rows whose column names and cell texts
  hold no line feed (and a line terminator that ends in its only line feed, as
  \<^verbatim>\<open>os.linesep\<close> does), the export consists of exactly N + 1 lines: the first is
  the record of the column names, and the line after it for each row, in order, is the
  record of that row's cell texts alone, the index label not among them. For every
  frame, counted in line feeds, the export has N + 1 line ends and in addition
  every line feed that stands inside a column name or a cell text, which is written
  out as it is; a frame with other index labels gives the same text; and the CSV
  download of the page is made from the frame displayed, the filtered view.
\<close>

theorem C8_csv_export_lines:
  fixes L :: "('c, 'p) library"
  shows "(\<forall>pre. linesep L = pre @ [CHR 0x0A] \<and> CHR 0x0A \<notin> set pre \<and> inner_line_feeds L df = 0 \<longrightarrow>
            text_lines (encode_utf8 (to_csv L df))
              = map (\<lambda>fs. encode_utf8 (csv_line (linesep L) (quoted_breaks L) fs @ pre))
                  (columns df # map (\<lambda>(i, cells). map (csv_cell L) cells) (rows df))
            \<and> length (text_lines (encode_utf8 (to_csv L df))) = length (rows df) + 1)
     \<and> line_count (encode_utf8 (to_csv L df))
         = (length (rows df) + 1) * line_count (linesep L) + inner_line_feeds L df
     \<and> to_csv L (df\<lparr>rows := map (\<lambda>(i, cells). (relabel i, cells)) (rows df)\<rparr>) = to_csv L df
     \<and> (\<forall>d. ekatalog_data st = Some d \<longrightarrow>
           csv_of (fst (display L st pat))
             = map (\<lambda>v. encode_utf8 (to_csv L v)) (frames_of (fst (display L st pat))))"
proof (intro conjI allI impI)
  fix pre
  assume a: "linesep L = pre @ [CHR 0x0A] \<and> CHR 0x0A \<notin> set pre \<and> inner_line_feeds L df = 0"
  then have l: "text_lines (to_csv L df)
     = map (\<lambda>fs. csv_line (linesep L) (quoted_breaks L) fs @ pre)
         (columns df # map (\<lambda>(i, cells). map (csv_cell L) cells) (rows df))"
    by (intro text_lines_to_csv) simp_all
  show "text_lines (encode_utf8 (to_csv L df))
              = map (\<lambda>fs. encode_utf8 (csv_line (linesep L) (quoted_breaks L) fs @ pre))
                  (columns df # map (\<lambda>(i, cells). map (csv_cell L) cells) (rows df))"
    by (simp only: text_lines_encode_utf8 l map_map comp_def)
  show "length (text_lines (encode_utf8 (to_csv L df))) = length (rows df) + 1"
    by (simp only: text_lines_encode_utf8 l) simp
next
  show "line_count (encode_utf8 (to_csv L df))
       = (length (rows df) + 1) * line_count (linesep L) + inner_line_feeds L df"
    by (simp only: line_count_encode_utf8 line_count_to_csv)
next
  show "to_csv L (df\<lparr>rows := map (\<lambda>(i, cells). (relabel i, cells)) (rows df)\<rparr>) = to_csv L df"
    by (rule to_csv_ignores_labels)
next
  fix d assume "ekatalog_data st = Some d"
  then show "csv_of (fst (display L st pat))
             = map (\<lambda>v. encode_utf8 (to_csv L v)) (frames_of (fst (display L st pat)))"
    by (rule csv_of_display)
qed

text \<open>
  The amended claim C8 for the two records and the search text \<^verbatim>\<open>ba\<close>, which keeps
  both: the download is made from the frame of two rows, and its lines are the header
  \<^verbatim>\<open>a,b\<close> and the two data lines \<^verbatim>\<open>Foo,Bar\<close> and \<^verbatim>\<open>Baz,Qux\<close>.
\<close>

theorem C8_csv_export_lines_witness:
  "csv_of (fst (display (text_library (\<lambda>rq. Refused ''down''))
      \<lparr>ekatalog_data = Some (JObj [(''data'',
          JArr [JObj [(''a'', JStr ''Foo''), (''b'', JStr ''Bar'')],
                JObj [(''a'', JStr ''Baz''), (''b'', JStr ''Qux'')]])]),
       last_fetch = Some 7, is_archive = Some False\<rparr> ''ba''))
     = [encode_utf8 (to_csv (text_library (\<lambda>rq. Refused ''down''))
          \<lparr>columns = [''a'', ''b''], rows = [(0, [''Foo'', ''Bar'']), (1, [''Baz'', ''Qux''])]\<rparr>)]
   \<and> text_lines (encode_utf8 (to_csv (text_library (\<lambda>rq. Refused ''down''))
        \<lparr>columns = [''a'', ''b''], rows = [(0, [''Foo'', ''Bar'']), (1, [''Baz'', ''Qux''])]\<rparr>))
     = [''a,b'', ''Foo,Bar'', ''Baz,Qux'']
   \<and> length (text_lines (encode_utf8 (to_csv (text_library (\<lambda>rq. Refused ''down''))
        \<lparr>columns = [''a'', ''b''], rows = [(0, [''Foo'', ''Bar'']), (1, [''Baz'', ''Qux''])]\<rparr>)))
     = 2 + 1"
proof -
  let ?L = "text_library (\<lambda>rq. Refused ''down'')"
  let ?d = "JObj [(''data'',
          JArr [JObj [(''a'', JStr ''Foo''), (''b'', JStr ''Bar'')],
                JObj [(''a'', JStr ''Baz''), (''b'', JStr ''Qux'')]])]"
  let ?st = "\<lparr>ekatalog_data = Some ?d, last_fetch = Some 7, is_archive = Some False\<rparr>"
  let ?df = "\<lparr>columns = [''a'', ''b''], rows = [(0 :: nat, [''Foo'', ''Bar'']), (1, [''Baz'', ''Qux''])]\<rparr>"
  have e: "ekatalog_data ?st = Some ?d" by simp
  have f: "frames_of (fst (display ?L ?st ''ba'')) = [?df]" by code_simp
  have h: "linesep ?L = [] @ [CHR 0x0A] \<and> CHR 0x0A \<notin> set [] \<and> inner_line_feeds ?L ?df = 0"
    by code_simp
  have m: "map (\<lambda>fs. encode_utf8 (csv_line (linesep ?L) (quoted_breaks ?L) fs @ []))
             (columns ?df # map (\<lambda>(i, cells). map (csv_cell ?L) cells) (rows ?df))
      = [''a,b'', ''Foo,Bar'', ''Baz,Qux'']"
    by code_simp
  note c = C8_csv_export_lines [of ?L ?df "\<lambda>i. i" ?st "''ba''"]
  from c e have "csv_of (fst (display ?L ?st ''ba''))
      = map (\<lambda>v. encode_utf8 (to_csv ?L v)) (frames_of (fst (display ?L ?st ''ba'')))" by blast
  then have x: "csv_of (fst (display ?L ?st ''ba'')) = [encode_utf8 (to_csv ?L ?df)]"
    by (simp only: f list.map)
  from c h have "text_lines (encode_utf8 (to_csv ?L ?df))
              = map (\<lambda>fs. encode_utf8 (csv_line (linesep ?L) (quoted_breaks ?L) fs @ []))
                  (columns ?df # map (\<lambda>(i, cells). map (csv_cell ?L) cells) (rows ?df))" by blast
  then have y: "text_lines (encode_utf8 (to_csv ?L ?df)) = [''a,b'', ''Foo,Bar'', ''Baz,Qux'']"
    by (simp only: m)
  from y have z: "length (text_lines (encode_utf8 (to_csv ?L ?df))) = 2 + 1" by simp
  from x y z show ?thesis by (intro conjI)
qed

text \<open>
  Claim C8 as stated fails: for one record whose field text holds a line feed, the view
  has one row, and the export has three lines: the header, and a field that spans two.
\<close>

theorem C8_line_break_in_field_counterexample:
  "frames_of (fst (display (text_library (\<lambda>rq. Refused ''down''))
      \<lparr>ekatalog_data = Some (JObj [(''data'', JArr [JObj [(''a'', JStr (''x'' @ [CHR 0x0A] @ ''y''))]])]),
       last_fetch = Some 7, is_archive = Some False\<rparr> []))
     = [\<lparr>columns = [''a''], rows = [(0, [''x'' @ [CHR 0x0A] @ ''y''])]\<rparr>]
   \<and> csv_of (fst (display (text_library (\<lambda>rq. Refused ''down''))
      \<lparr>ekatalog_data = Some (JObj [(''data'', JArr [JObj [(''a'', JStr (''x'' @ [CHR 0x0A] @ ''y''))]])]),
       last_fetch = Some 7, is_archive = Some False\<rparr> []))
     = [''a'' @ [CHR 0x0A, CHR 0x22] @ ''x'' @ [CHR 0x0A] @ ''y'' @ [CHR 0x22, CHR 0x0A]]
   \<and> text_lines (''a'' @ [CHR 0x0A, CHR 0x22] @ ''x'' @ [CHR 0x0A] @ ''y'' @ [CHR 0x22, CHR 0x0A])
     = [''a'', CHR 0x22 # ''x'', ''y'' @ [CHR 0x22]]
   \<and> line_count (''a'' @ [CHR 0x0A, CHR 0x22] @ ''x'' @ [CHR 0x0A] @ ''y'' @ [CHR 0x22, CHR 0x0A]) = 3
   \<and> length (rows \<lparr>columns = [''a''], rows = [(0 :: nat, [''x'' @ [CHR 0x0A] @ ''y''])]\<rparr>) = 1"
  by code_simp

end
